theory Spec2Isabelle
  imports Complex_Main "HOL-Library.Word" "HOL-Library.Monad_Syntax"
begin

unbundle bit_operations_syntax

chapter \<open>SnackaCaptureWindows: capture and normalisation pipeline\<close>

text \<open>
  A shallow embedding of the Windows capture tool: the audio loopback capturer
  (\<^verbatim>\<open>AudioCapturer.cpp\<close>), the GPU colour converter (\<^verbatim>\<open>ColorConverter.cpp\<close>), the display
  capturer (\<^verbatim>\<open>DisplayCapturer.cpp\<close>) and the window capturer (\<^verbatim>\<open>WindowCapturer.cpp\<close>).

  Conventions. \<^verbatim>\<open>UINT32\<close> is \<open>32 word\<close>, \<^verbatim>\<open>size_t\<close> is \<open>64 word\<close> (x64 build), \<^verbatim>\<open>int16_t\<close> is
  \<open>16 word\<close> read with \<open>sint\<close>. Loop counters and vector indices are natural numbers with the
  wrap-around of the C++ type written out (\<open>mod 2 ^ 32\<close> for \<^verbatim>\<open>UINT32\<close> arithmetic,
  \<open>mod 2 ^ 64\<close> for \<^verbatim>\<open>size_t\<close> arithmetic). The \<^verbatim>\<open>int\<close> members of the classes are \<open>int\<close>.
  Undefined behaviour of the C++ (a vector or buffer access out of range, a floating-point
  value converted to an integer type that cannot hold it) is the result \<open>None\<close>; a null
  pointer that is dereferenced is the fault \<open>NullDeref\<close>.
\<close>

section \<open>IEEE 754 arithmetic\<close>

text \<open>
  The frame counts of the audio path are computed in \<^verbatim>\<open>double\<close> and truncated, so the
  rounding of each operation matters. A floating-point value is a rational number or one of
  the special values; every operation computes the exact rational result and rounds it to the
  format (round to nearest, ties to even), as IEEE 754 prescribes. The sign of a zero is not
  kept: every zero divisor in the program is the conversion of an integer 0, that is +0.
\<close>

datatype fp = Finite rat | PInf | NInf | NaN

type_synonym rounding = "rat \<Rightarrow> fp"

fun bit_length :: "nat \<Rightarrow> nat" where
  "bit_length n = (if n = 0 then 0 else Suc (bit_length (n div 2)))"

declare bit_length.simps [simp del]

definition pow2 :: "int \<Rightarrow> rat" where
  "pow2 e = (if 0 \<le> e then 2 ^ nat e else 1 / 2 ^ nat (- e))"

text \<open>\<open>ilog2 x\<close> is the exponent \<open>e\<close> with \<open>2\<^sup>e \<le> x < 2\<^sup>e\<^sup>+\<^sup>1\<close>, for \<open>x > 0\<close>.\<close>

definition ilog2 :: "rat \<Rightarrow> int" where
  "ilog2 x = (if 1 \<le> x then int (bit_length (nat \<lfloor>x\<rfloor>)) - 1
              else - int (bit_length (nat (\<lceil>1 / x\<rceil> - 1))))"

definition round_half_even :: "rat \<Rightarrow> int" where
  "round_half_even x =
     (let f = \<lfloor>x\<rfloor>; d = x - of_int f
      in if d < 1 / 2 then f else if 1 / 2 < d then f + 1
         else if even f then f else f + 1)"

text \<open>
  Rounding to a binary format of precision \<open>p\<close> with exponent range \<open>emin .. emax\<close>:
  the spacing of the format at \<open>x\<close> is \<open>2\<^sup>e\<close> (the subnormal spacing below \<open>2\<^bsup>emin\<^esup>\<close>),
  and a result beyond the largest finite number is an infinity.
\<close>

definition round_fp :: "nat \<Rightarrow> int \<Rightarrow> int \<Rightarrow> rounding" where
  "round_fp p emin emax x =
     (if x = 0 then Finite 0
      else let e = max (ilog2 \<bar>x\<bar>) emin - (int p - 1);
               r = of_int (round_half_even (x / pow2 e)) * pow2 e
           in if pow2 (emax + 1) \<le> \<bar>r\<bar> then (if 0 < x then PInf else NInf)
              else Finite r)"

definition to_double :: rounding where
  "to_double = round_fp 53 (- 1022) 1023"

definition to_float :: rounding where
  "to_float = round_fp 24 (- 126) 127"

fun fp_neg :: "fp \<Rightarrow> fp" where
  "fp_neg (Finite a) = Finite (- a)"
| "fp_neg PInf = NInf"
| "fp_neg NInf = PInf"
| "fp_neg NaN = NaN"

fun fp_add :: "rounding \<Rightarrow> fp \<Rightarrow> fp \<Rightarrow> fp" where
  "fp_add rnd (Finite a) (Finite b) = rnd (a + b)"
| "fp_add rnd NaN _ = NaN"
| "fp_add rnd _ NaN = NaN"
| "fp_add rnd PInf NInf = NaN"
| "fp_add rnd NInf PInf = NaN"
| "fp_add rnd PInf _ = PInf"
| "fp_add rnd NInf _ = NInf"
| "fp_add rnd (Finite a) b = b"

definition fp_sub :: "rounding \<Rightarrow> fp \<Rightarrow> fp \<Rightarrow> fp" where
  "fp_sub rnd a b = fp_add rnd a (fp_neg b)"

fun fp_mul :: "rounding \<Rightarrow> fp \<Rightarrow> fp \<Rightarrow> fp" where
  "fp_mul rnd (Finite a) (Finite b) = rnd (a * b)"
| "fp_mul rnd NaN _ = NaN"
| "fp_mul rnd _ NaN = NaN"
| "fp_mul rnd (Finite a) PInf = (if a = 0 then NaN else if 0 < a then PInf else NInf)"
| "fp_mul rnd (Finite a) NInf = (if a = 0 then NaN else if 0 < a then NInf else PInf)"
| "fp_mul rnd PInf (Finite b) = (if b = 0 then NaN else if 0 < b then PInf else NInf)"
| "fp_mul rnd NInf (Finite b) = (if b = 0 then NaN else if 0 < b then NInf else PInf)"
| "fp_mul rnd PInf PInf = PInf"
| "fp_mul rnd PInf NInf = NInf"
| "fp_mul rnd NInf PInf = NInf"
| "fp_mul rnd NInf NInf = PInf"

fun fp_div :: "rounding \<Rightarrow> fp \<Rightarrow> fp \<Rightarrow> fp" where
  "fp_div rnd (Finite a) (Finite b) =
     (if b = 0 then (if a = 0 then NaN else if 0 < a then PInf else NInf)
      else rnd (a / b))"
| "fp_div rnd NaN _ = NaN"
| "fp_div rnd _ NaN = NaN"
| "fp_div rnd (Finite a) _ = Finite 0"
| "fp_div rnd PInf (Finite b) = (if 0 \<le> b then PInf else NInf)"
| "fp_div rnd NInf (Finite b) = (if 0 \<le> b then NInf else PInf)"
| "fp_div rnd _ _ = NaN"

text \<open>The comparison \<^verbatim>\<open><\<close>: false whenever an operand is a NaN.\<close>

fun fp_less :: "fp \<Rightarrow> fp \<Rightarrow> bool" where
  "fp_less (Finite a) (Finite b) = (a < b)"
| "fp_less NaN _ = False"
| "fp_less _ NaN = False"
| "fp_less _ NInf = False"
| "fp_less PInf _ = False"
| "fp_less _ _ = True"

text \<open>
  A floating-point value converted to an integer type is truncated toward zero; the
  behaviour is undefined when the truncated value is not a value of the type.
\<close>

definition trunc_rat :: "rat \<Rightarrow> int" where
  "trunc_rat x = (if 0 \<le> x then \<lfloor>x\<rfloor> else \<lceil>x\<rceil>)"

fun fp_to_size_t :: "fp \<Rightarrow> nat option" where
  "fp_to_size_t (Finite x) =
     (let t = trunc_rat x in if 0 \<le> t \<and> t < 2 ^ 64 then Some (nat t) else None)"
| "fp_to_size_t _ = None"

fun fp_to_int16 :: "fp \<Rightarrow> 16 word option" where
  "fp_to_int16 (Finite x) =
     (let t = trunc_rat x
      in if - 32768 \<le> t \<and> t \<le> 32767 then Some (word_of_int t) else None)"
| "fp_to_int16 _ = None"

text \<open>The value of a binary32 bit pattern (\<^verbatim>\<open>*reinterpret_cast<const float*>(p)\<close>).\<close>

definition float_of_bits :: "32 word \<Rightarrow> fp" where
  "float_of_bits w =
     (let e = uint (take_bit 8 (drop_bit 23 w));
          m = uint (take_bit 23 w);
          s = (if bit w 31 then - 1 else 1)
      in if e = 255 then (if m = 0 then (if bit w 31 then NInf else PInf) else NaN)
         else if e = 0 then Finite (s * of_int m * pow2 (- 149))
         else Finite (s * of_int (2 ^ 23 + m) * pow2 (e - 150)))"

text \<open>\<^verbatim>\<open>std::clamp(v, lo, hi)\<close> is \<^verbatim>\<open>(v < lo) ? lo : (hi < v) ? hi : v\<close>.\<close>

definition fp_clamp :: "fp \<Rightarrow> fp \<Rightarrow> fp \<Rightarrow> fp" where
  "fp_clamp v lo hi = (if fp_less v lo then lo else if fp_less hi v then hi else v)"


section \<open>Vectors and raw memory\<close>

text \<open>
  \<^verbatim>\<open>std::vector::resize\<close> keeps the old prefix and value-initialises new elements.
  An access through \<^verbatim>\<open>operator[]\<close> or a raw pointer outside the storage is undefined.
\<close>

definition resize :: "nat \<Rightarrow> 'a \<Rightarrow> 'a list \<Rightarrow> 'a list" where
  "resize n z xs = take n xs @ replicate (n - length xs) z"

definition load :: "'a list \<Rightarrow> nat \<Rightarrow> 'a option" where
  "load xs i = (if i < length xs then Some (xs ! i) else None)"

definition store :: "'a list \<Rightarrow> nat \<Rightarrow> 'a \<Rightarrow> 'a list option" where
  "store xs i v = (if i < length xs then Some (xs[i := v]) else None)"

text \<open>Integer division of C++ truncates toward zero.\<close>

definition c_div :: "int \<Rightarrow> int \<Rightarrow> int" where
  "c_div a b = sgn a * sgn b * (\<bar>a\<bar> div \<bar>b\<bar>)"

section \<open>Audio loopback capturer\<close>

record AudioCapturer =
  m_running :: bool
  m_captureThread :: bool
  m_audioClient :: bool
  m_captureClient :: bool
  m_isFloat :: bool
  m_bitsPerSample :: int
  m_channels :: int
  m_sampleRate :: int
  m_resampleBuffer :: "fp list"
  m_outputBuffer :: "16 word list"
  m_callback :: bool

text \<open>
  The \<^verbatim>\<open>ComPtr\<close> members are modelled by whether they hold an object, \<open>m_captureThread\<close> by
  whether the thread is joinable, \<open>m_callback\<close> by whether the \<^verbatim>\<open>std::function\<close> holds a
  target. \<open>m_bitsPerSample\<close> and \<open>m_channels\<close> are read from 16-bit fields of the mix
  format, \<open>m_sampleRate\<close> from a 32-bit one.
\<close>

subsection \<open>Reading native samples\<close>

definition read_u16 :: "8 word list \<Rightarrow> nat \<Rightarrow> 16 word option" where
  "read_u16 d k =
     do { b0 \<leftarrow> load d k; b1 \<leftarrow> load d (k + 1);
          Some (ucast b0 OR push_bit 8 (ucast b1)) }"

definition read_u32 :: "8 word list \<Rightarrow> nat \<Rightarrow> 32 word option" where
  "read_u32 d k =
     do { b0 \<leftarrow> load d k; b1 \<leftarrow> load d (k + 1);
          b2 \<leftarrow> load d (k + 2); b3 \<leftarrow> load d (k + 3);
          Some (ucast b0 OR push_bit 8 (ucast b1) OR push_bit 16 (ucast b2)
                OR push_bit 24 (ucast b3)) }"

text \<open>\<^verbatim>\<open>(p[2] << 24) | (p[1] << 16) | (p[0] << 8)\<close>, stored in an \<^verbatim>\<open>int32_t\<close>.\<close>

definition read_packed24 :: "8 word list \<Rightarrow> nat \<Rightarrow> 32 word option" where
  "read_packed24 d k =
     do { b0 \<leftarrow> load d k; b1 \<leftarrow> load d (k + 1); b2 \<leftarrow> load d (k + 2);
          Some (push_bit 24 (ucast b2) OR push_bit 16 (ucast b1) OR push_bit 8 (ucast b0)) }"

text \<open>A signed integer sample divided by a \<^verbatim>\<open>float\<close> constant: the integer is converted
  to \<^verbatim>\<open>float\<close> first.\<close>

definition int_sample :: "int \<Rightarrow> rat \<Rightarrow> fp" where
  "int_sample v scale = fp_div to_float (to_float (of_int v)) (Finite scale)"

text \<open>One iteration of the first loop of \<^verbatim>\<open>NormalizeAudio\<close> up to the two stores:
  the left and right sample of native frame \<open>i\<close>.\<close>

definition read_frame :: "AudioCapturer \<Rightarrow> 8 word list \<Rightarrow> nat \<Rightarrow> (fp \<times> fp) option" where
  "read_frame st inputData i =
     (let bytesPerSample = c_div (m_bitsPerSample st) 8;
          bytesPerFrame = bytesPerSample * m_channels st;
          frame = nat ((int i * bytesPerFrame) mod 2 ^ 32)
      in if m_isFloat st \<and> m_bitsPerSample st = 32 then
           do { l \<leftarrow> read_u32 inputData frame;
                let left = float_of_bits l;
                right \<leftarrow> (if 2 \<le> m_channels st
                           then map_option float_of_bits (read_u32 inputData (frame + 4))
                           else Some left);
                Some (left, right) }
         else if m_bitsPerSample st = 16 then
           do { l \<leftarrow> read_u16 inputData frame;
                let left = int_sample (sint l) 32768;
                right \<leftarrow> (if 2 \<le> m_channels st
                           then map_option (\<lambda>r. int_sample (sint r) 32768)
                                  (read_u16 inputData (frame + 2))
                           else Some left);
                Some (left, right) }
         else if m_bitsPerSample st = 32 \<and> \<not> m_isFloat st then
           do { l \<leftarrow> read_u32 inputData frame;
                let left = int_sample (sint l) 2147483648;
                right \<leftarrow> (if 2 \<le> m_channels st
                           then map_option (\<lambda>r. int_sample (sint r) 2147483648)
                                  (read_u32 inputData (frame + 4))
                           else Some left);
                Some (left, right) }
         else if m_bitsPerSample st = 24 then
           do { l \<leftarrow> read_packed24 inputData frame;
                let left = int_sample (sint l) 2147483648;
                right \<leftarrow> (if 2 \<le> m_channels st
                           then map_option (\<lambda>r. int_sample (sint r) 2147483648)
                                  (read_packed24 inputData (frame + 3))
                           else Some left);
                Some (left, right) }
         else Some (Finite 0, Finite 0))"

text \<open>The first loop, \<^verbatim>\<open>for (UINT32 i = 0; i < numFrames; i++)\<close>, over the list of its
  indices; \<^verbatim>\<open>i * 2\<close> and \<^verbatim>\<open>i * 2 + 1\<close> are \<^verbatim>\<open>UINT32\<close> arithmetic.\<close>

fun convert_frames ::
  "AudioCapturer \<Rightarrow> 8 word list \<Rightarrow> nat list \<Rightarrow> fp list \<Rightarrow> fp list option" where
  "convert_frames st inputData [] buf = Some buf"
| "convert_frames st inputData (i # rest) buf =
     do { (left, right) \<leftarrow> read_frame st inputData i;
          buf1 \<leftarrow> store buf ((i * 2) mod 2 ^ 32) left;
          buf2 \<leftarrow> store buf1 ((i * 2 + 1) mod 2 ^ 32) right;
          convert_frames st inputData rest buf2 }"

subsection \<open>Output frame count\<close>

text \<open>Lines 296-303: \<^verbatim>\<open>ratio = 48000.0 / m_sampleRate;
  outputFrames = static_cast<size_t>(numFrames * ratio)\<close>.\<close>

definition normalize_outputFrames :: "int \<Rightarrow> 32 word \<Rightarrow> nat option" where
  "normalize_outputFrames sampleRate numFrames =
     (if sampleRate = 48000 then Some (unat numFrames)
      else let ratio = fp_div to_double (Finite 48000) (to_double (of_int sampleRate))
           in fp_to_size_t (fp_mul to_double (to_double (of_nat (unat numFrames))) ratio))"

text \<open>Lines 203-206 (silent buffer):
  \<^verbatim>\<open>outputFrames = static_cast<size_t>(numFrames * 48000.0 / m_sampleRate)\<close>.\<close>

definition silent_outputFrames :: "int \<Rightarrow> 32 word \<Rightarrow> nat option" where
  "silent_outputFrames sampleRate numFrames =
     (if sampleRate \<noteq> 48000
      then fp_to_size_t
             (fp_div to_double
                (fp_mul to_double (to_double (of_nat (unat numFrames))) (Finite 48000))
                (to_double (of_int sampleRate)))
      else Some (unat numFrames))"

subsection \<open>Conversion to 16-bit stereo\<close>

definition to_int16_sample :: "fp \<Rightarrow> 16 word option" where
  "to_int16_sample v =
     fp_to_int16 (fp_mul to_float (fp_clamp v (Finite (- 1)) (Finite 1)) (Finite 32767))"

text \<open>Lines 309-313, the direct conversion at 48 kHz.\<close>

fun direct_convert :: "fp list \<Rightarrow> nat list \<Rightarrow> 16 word list \<Rightarrow> 16 word list option" where
  "direct_convert buf [] out = Some out"
| "direct_convert buf (i # rest) out =
     do { sample \<leftarrow> load buf i;
          v \<leftarrow> to_int16_sample sample;
          out1 \<leftarrow> store out i v;
          direct_convert buf rest out1 }"

text \<open>Lines 322-326, the clamp of the source index. \<^verbatim>\<open>numFrames - 1\<close> and
  \<^verbatim>\<open>numFrames - 2\<close> are \<^verbatim>\<open>UINT32\<close> arithmetic, converted to \<^verbatim>\<open>size_t\<close>.\<close>

definition clamp_index :: "32 word \<Rightarrow> nat \<Rightarrow> fp \<Rightarrow> nat \<times> fp" where
  "clamp_index numFrames srcIndex fraction =
     (if unat (numFrames - 1) \<le> srcIndex then (unat (numFrames - 2), Finite 1)
      else (srcIndex, fraction))"

text \<open>\<^verbatim>\<open>static_cast<float>(buf[a] * (1.0 - frac) + buf[b] * frac)\<close>, computed in
  \<^verbatim>\<open>double\<close>.\<close>

fun fp_cast_float :: "fp \<Rightarrow> fp" where
  "fp_cast_float (Finite x) = to_float x"
| "fp_cast_float v = v"

definition interpolate :: "fp list \<Rightarrow> nat \<Rightarrow> nat \<Rightarrow> fp \<Rightarrow> fp option" where
  "interpolate buf a b fraction =
     do { x \<leftarrow> load buf a;
          y \<leftarrow> load buf b;
          Some (fp_cast_float
                  (fp_add to_double
                     (fp_mul to_double x (fp_sub to_double (Finite 1) fraction))
                     (fp_mul to_double y fraction))) }"

text \<open>Lines 318-342, the body of the interpolation loop for output index \<open>i\<close>: the two
  output samples. The index arithmetic is \<^verbatim>\<open>size_t\<close> arithmetic.\<close>

definition resample_frame ::
  "32 word \<Rightarrow> fp \<Rightarrow> fp list \<Rightarrow> nat \<Rightarrow> (16 word \<times> 16 word) option" where
  "resample_frame numFrames ratio buf i =
     do { let srcPos = fp_mul to_double (to_double (of_nat i)) ratio;
          srcIndex0 \<leftarrow> fp_to_size_t srcPos;
          let fraction0 = fp_sub to_double srcPos (to_double (of_nat srcIndex0));
          let clamped = clamp_index numFrames srcIndex0 fraction0;
          let srcIndex = fst clamped;
          let fraction = snd clamped;
          l \<leftarrow> interpolate buf ((srcIndex * 2) mod 2 ^ 64)
                 (((srcIndex + 1) * 2) mod 2 ^ 64) fraction;
          r \<leftarrow> interpolate buf ((srcIndex * 2 + 1) mod 2 ^ 64)
                 (((srcIndex + 1) * 2 + 1) mod 2 ^ 64) fraction;
          left \<leftarrow> to_int16_sample l;
          right \<leftarrow> to_int16_sample r;
          Some (left, right) }"

text \<open>Lines 317-343, the interpolation loop over the output indices.\<close>

fun resample_frames ::
  "32 word \<Rightarrow> fp \<Rightarrow> fp list \<Rightarrow> nat list \<Rightarrow> 16 word list \<Rightarrow> 16 word list option" where
  "resample_frames numFrames ratio buf [] out = Some out"
| "resample_frames numFrames ratio buf (i # rest) out =
     do { (left, right) \<leftarrow> resample_frame numFrames ratio buf i;
          out1 \<leftarrow> store out ((i * 2) mod 2 ^ 64) left;
          out2 \<leftarrow> store out1 ((i * 2 + 1) mod 2 ^ 64) right;
          resample_frames numFrames ratio buf rest out2 }"

definition NormalizeAudio ::
  "AudioCapturer \<Rightarrow> 8 word list \<Rightarrow> 32 word \<Rightarrow> AudioCapturer option" where
  "NormalizeAudio st inputData numFrames =
     do { let buf0 = resize (unat (numFrames * 2)) (Finite 0) (m_resampleBuffer st);
          buf \<leftarrow> convert_frames st inputData [0..<unat numFrames] buf0;
          outputFrames \<leftarrow> normalize_outputFrames (m_sampleRate st) numFrames;
          let out0 = resize ((outputFrames * 2) mod 2 ^ 64) 0 (m_outputBuffer st);
          out \<leftarrow>
            (if m_sampleRate st = 48000
             then direct_convert buf [0..<(outputFrames * 2) mod 2 ^ 64] out0
             else let ratio = fp_div to_double
                                (to_double (of_nat (unat (numFrames - 1))))
                                (to_double (of_nat ((outputFrames + 2 ^ 64 - 1) mod 2 ^ 64)))
                  in resample_frames numFrames ratio buf [0..<outputFrames] out0);
          Some (st\<lparr>m_resampleBuffer := buf, m_outputBuffer := out\<rparr>) }"


subsection \<open>One packet of the capture loop\<close>

text \<open>
  Modelled from the spec: \<^verbatim>\<open>Protocol.h\<close>, which declares \<^verbatim>\<open>AudioPacketHeader\<close>, is not
  among the sources. The header is \<open>{frameCount: uint32, timestampMs: uint64}\<close>, built by
  \<^verbatim>\<open>AudioPacketHeader(frameCount, timestamp)\<close>; its size in bytes, \<^verbatim>\<open>sizeof(header)\<close>, is a
  parameter of the model.
\<close>

record AudioPacketHeader =
  frameCount :: "32 word"
  timestampMs :: "64 word"

text \<open>What \<open>m_callback(packet.data(), packet.size(), timestamp)\<close> receives: the packet is
  the header followed by the samples of \<open>m_outputBuffer\<close>.\<close>

record audio_packet =
  pkt_header :: AudioPacketHeader
  pkt_samples :: "16 word list"
  pkt_size :: nat
  pkt_timestamp :: "64 word"

text \<open>Lines 195-232 of \<^verbatim>\<open>CaptureLoop\<close>, for one buffer returned by \<^verbatim>\<open>GetBuffer\<close>:
  \<open>silent\<close> is \<^verbatim>\<open>flags & AUDCLNT_BUFFERFLAGS_SILENT\<close>.\<close>

definition capture_packet ::
  "nat \<Rightarrow> 8 word list \<Rightarrow> 32 word \<Rightarrow> bool \<Rightarrow> 64 word \<Rightarrow> AudioCapturer
   \<Rightarrow> (audio_packet option \<times> AudioCapturer) option" where
  "capture_packet sizeof_header data numFrames silent timestamp st =
     do { st1 \<leftarrow>
            (if silent
             then do { outputFrames \<leftarrow> silent_outputFrames (m_sampleRate st) numFrames;
                       Some (st\<lparr>m_outputBuffer :=
                                  replicate ((outputFrames * 2) mod 2 ^ 64) 0\<rparr>) }
             else NormalizeAudio st data numFrames);
          Some (if m_callback st1 \<and> m_outputBuffer st1 \<noteq> []
                then Some \<lparr>pkt_header =
                             \<lparr>frameCount = of_nat (length (m_outputBuffer st1) div 2),
                              timestampMs = timestamp\<rparr>,
                           pkt_samples = m_outputBuffer st1,
                           pkt_size = sizeof_header + length (m_outputBuffer st1) * 2,
                           pkt_timestamp = timestamp\<rparr>
                else None,
                st1) }"

subsection \<open>Start and Stop\<close>

datatype fault = NullDeref | InvalidCopy | BufferOverrun

datatype hresult = S_OK | DXGI_ERROR_WAIT_TIMEOUT | DXGI_ERROR_ACCESS_LOST | E_FAIL

fun FAILED :: "hresult \<Rightarrow> bool" where
  "FAILED S_OK = False"
| "FAILED _ = True"

text \<open>The object as the constructor leaves it.\<close>

definition AudioCapturer_new :: AudioCapturer where
  "AudioCapturer_new =
     \<lparr>m_running = False, m_captureThread = False, m_audioClient = False,
      m_captureClient = False, m_isFloat = False, m_bitsPerSample = 0, m_channels = 0,
      m_sampleRate = 0, m_resampleBuffer = [], m_outputBuffer = [], m_callback = False\<rparr>"

text \<open>\<^verbatim>\<open>AudioCapturer::Start\<close>; \<open>hr\<close> is the result of \<^verbatim>\<open>m_audioClient->Start()\<close>.\<close>

definition AudioCapturer_Start :: "hresult \<Rightarrow> AudioCapturer \<Rightarrow> fault + AudioCapturer" where
  "AudioCapturer_Start hr st =
     (if m_running st then Inr st
      else let st1 = st\<lparr>m_callback := True, m_running := True\<rparr>
           in if \<not> m_audioClient st1 then Inl NullDeref
              else if FAILED hr then Inr (st1\<lparr>m_running := False\<rparr>)
              else Inr (st1\<lparr>m_captureThread := True\<rparr>))"

section \<open>GPU colour converter\<close>

record GpuColorConverter =
  m_width :: int
  m_height :: int
  m_nv12Size :: nat
  m_videoProcessor :: bool
  m_stagingTexture :: bool
  m_nv12Buffer :: "8 word list"

definition GpuColorConverter_new :: GpuColorConverter where
  "GpuColorConverter_new =
     \<lparr>m_width = 0, m_height = 0, m_nv12Size = 0, m_videoProcessor = False,
      m_stagingTexture = False, m_nv12Buffer = []\<rparr>"

text \<open>\<^verbatim>\<open>static_cast<size_t>(width) * height * 3 / 2\<close> in \<^verbatim>\<open>size_t\<close> arithmetic.\<close>

definition nv12_size :: "int \<Rightarrow> int \<Rightarrow> nat" where
  "nv12_size width height =
     (((nat (width mod 2 ^ 64) * nat (height mod 2 ^ 64)) mod 2 ^ 64 * 3) mod 2 ^ 64) div 2"

text \<open>\<^verbatim>\<open>GpuColorConverter::Initialize\<close>; the two flags are the results of
  \<^verbatim>\<open>CreateVideoProcessor\<close> and \<^verbatim>\<open>CreateOutputTextures\<close>, which only talk to the driver.\<close>

definition GpuColorConverter_Initialize ::
  "bool \<Rightarrow> bool \<Rightarrow> int \<Rightarrow> int \<Rightarrow> GpuColorConverter \<Rightarrow> bool \<times> GpuColorConverter" where
  "GpuColorConverter_Initialize processor_ok textures_ok width height c =
     (let c1 = c\<lparr>m_width := width, m_height := height,
                 m_nv12Size := nv12_size width height,
                 m_nv12Buffer := resize (nv12_size width height) 0 (m_nv12Buffer c)\<rparr>
      in if \<not> processor_ok then (False, c1)
         else let c2 = c1\<lparr>m_videoProcessor := True\<rparr>
              in if \<not> textures_ok then (False, c2)
                 else (True, c2\<lparr>m_stagingTexture := True\<rparr>))"

text \<open>What the driver answers during one \<^verbatim>\<open>Convert\<close>: the results of creating the input
  view, of the blit and of \<^verbatim>\<open>Map\<close>, and the mapped staging memory with its row pitch.\<close>

record convert_os =
  os_inputView :: hresult
  os_blt :: hresult
  os_map :: hresult
  os_pData :: "nat \<Rightarrow> 8 word"
  os_RowPitch :: nat

text \<open>\<^verbatim>\<open>memcpy(dst + doff, src + soff, n)\<close> into the vector \<open>dst\<close>.\<close>

definition memcpy_into ::
  "8 word list \<Rightarrow> int \<Rightarrow> (nat \<Rightarrow> 8 word) \<Rightarrow> nat \<Rightarrow> nat \<Rightarrow> 8 word list option" where
  "memcpy_into dst doff src soff n =
     (if 0 \<le> doff \<and> nat doff + n \<le> length dst
      then Some (take (nat doff) dst @ map (\<lambda>k. src (soff + k)) [0..<n]
                 @ drop (nat doff + n) dst)
      else None)"

text \<open>The row loops of \<^verbatim>\<open>Convert\<close> (lines 210-212 and 220-222):
  \<^verbatim>\<open>memcpy(dst + y * m_width, src + y * RowPitch, m_width)\<close> for each row \<open>y\<close>;
  \<^verbatim>\<open>y * RowPitch\<close> is \<^verbatim>\<open>UINT\<close> arithmetic.\<close>

fun copy_rows ::
  "int \<Rightarrow> (nat \<Rightarrow> 8 word) \<Rightarrow> nat \<Rightarrow> nat \<Rightarrow> int \<Rightarrow> nat list \<Rightarrow> 8 word list
   \<Rightarrow> 8 word list option" where
  "copy_rows width src srcBase pitch dstBase [] buf = Some buf"
| "copy_rows width src srcBase pitch dstBase (y # rest) buf =
     do { buf1 \<leftarrow> memcpy_into buf (dstBase + int y * width) src
                   (srcBase + (y * pitch) mod 2 ^ 32) (nat (width mod 2 ^ 64));
          copy_rows width src srcBase pitch dstBase rest buf1 }"

datatype 'a pointer = nullptr | Ptr 'a

text \<open>\<^verbatim>\<open>GpuColorConverter::Convert\<close>. The source texture only reaches the driver.\<close>

definition Convert ::
  "convert_os \<Rightarrow> GpuColorConverter \<Rightarrow> fault + (8 word list pointer \<times> GpuColorConverter)" where
  "Convert os c =
     (if \<not> m_videoProcessor c then Inl NullDeref
      else if FAILED (os_inputView os) then Inr (nullptr, c)
      else if FAILED (os_blt os) then Inr (nullptr, c)
      else if \<not> m_stagingTexture c then Inl NullDeref
      else if FAILED (os_map os) then Inr (nullptr, c)
      else
        let uvSrc = (os_RowPitch os * nat (m_height c mod 2 ^ 32)) mod 2 ^ 32;
            uvDst = m_width c * m_height c;
            uvHeight = c_div (m_height c) 2
        in case do { buf1 \<leftarrow> copy_rows (m_width c) (os_pData os) 0 (os_RowPitch os) 0
                               [0..<nat (m_height c)] (m_nv12Buffer c);
                     copy_rows (m_width c) (os_pData os) uvSrc (os_RowPitch os) uvDst
                               [0..<nat uvHeight] buf1 } of
             None \<Rightarrow> Inl BufferOverrun
           | Some buf \<Rightarrow> Inr (Ptr buf, c\<lparr>m_nv12Buffer := buf\<rparr>))"

text \<open>What the frame callback receives:
  \<^verbatim>\<open>m_callback(nv12Data, m_colorConverter->GetNV12Size(), timestamp)\<close>.\<close>

record video_frame =
  frame_data :: "8 word list"
  frame_size :: nat
  frame_timestamp :: "64 word"

section \<open>Textures\<close>

text \<open>A BGRA texture: its size and its pixels. \<^verbatim>\<open>CopySubresourceRegion\<close> belongs to
  Direct3D, not to the program; its contract is that the source box must lie within the
  source and the destination region within the destination (anything else is invalid, with
  no defined result), and that an empty box copies nothing.\<close>

record texture =
  tex_width :: nat
  tex_height :: nat
  tex_pixel :: "nat \<Rightarrow> nat \<Rightarrow> 32 word"

record D3D11_BOX =
  box_left :: nat
  box_top :: nat
  box_right :: nat
  box_bottom :: nat

definition new_texture :: "nat \<Rightarrow> nat \<Rightarrow> (nat \<Rightarrow> nat \<Rightarrow> 32 word) \<Rightarrow> texture" where
  "new_texture w h content = \<lparr>tex_width = w, tex_height = h, tex_pixel = content\<rparr>"

definition CopySubresourceRegion ::
  "texture \<Rightarrow> nat \<Rightarrow> nat \<Rightarrow> texture \<Rightarrow> D3D11_BOX \<Rightarrow> texture option" where
  "CopySubresourceRegion dst dstX dstY src box =
     (if box_right box \<le> box_left box \<or> box_bottom box \<le> box_top box then Some dst
      else if box_right box \<le> tex_width src \<and> box_bottom box \<le> tex_height src \<and>
              dstX + (box_right box - box_left box) \<le> tex_width dst \<and>
              dstY + (box_bottom box - box_top box) \<le> tex_height dst
      then Some (dst\<lparr>tex_pixel := (\<lambda>x y.
                   if dstX \<le> x \<and> x < dstX + (box_right box - box_left box) \<and>
                      dstY \<le> y \<and> y < dstY + (box_bottom box - box_top box)
                   then tex_pixel src (box_left box + (x - dstX)) (box_top box + (y - dstY))
                   else tex_pixel dst x y)\<rparr>)
      else None)"

text \<open>\<^verbatim>\<open>D3D11_BOX srcBox = {0, 0, 0, static_cast<UINT>(m_width),
  static_cast<UINT>(m_height), 1}\<close>.\<close>

definition srcBox :: "int \<Rightarrow> int \<Rightarrow> D3D11_BOX" where
  "srcBox width height =
     \<lparr>box_left = 0, box_top = 0, box_right = nat (width mod 2 ^ 32),
      box_bottom = nat (height mod 2 ^ 32)\<rparr>"

text \<open>The crop of a frame: the \<open>w \<times> h\<close> pixels at its top-left origin.\<close>

definition is_top_left_crop :: "nat \<Rightarrow> nat \<Rightarrow> texture \<Rightarrow> texture \<Rightarrow> bool" where
  "is_top_left_crop w h native t \<longleftrightarrow>
     tex_width t = w \<and> tex_height t = h \<and> w \<le> tex_width native \<and> h \<le> tex_height native \<and>
     (\<forall>y < h. \<forall>x < w. tex_pixel t x y = tex_pixel native x y)"


section \<open>Display capturer\<close>

text \<open>\<open>m_duplication\<close> holds the identity of the duplication handle, if any. The last two
  fields are ghost state: the number of calls of \<^verbatim>\<open>IDXGIOutput1::DuplicateOutput\<close> so far, and
  the number of capture threads spawned so far.\<close>

record DisplayCapturer =
  m_displayIndex :: int
  m_width :: int
  m_height :: int
  m_fps :: int
  m_running :: bool
  m_device :: bool
  m_context :: bool
  m_duplication :: "nat option"
  m_output :: bool
  m_scaledTexture :: "texture option"
  m_needsScaling :: bool
  m_colorConverter :: "GpuColorConverter option"
  m_callback :: bool
  duplicate_calls :: nat
  capture_threads :: nat

definition DisplayCapturer_new :: DisplayCapturer where
  "DisplayCapturer_new =
     \<lparr>m_displayIndex = 0, m_width = 0, m_height = 0, m_fps = 30, m_running = False,
      m_device = False, m_context = False, m_duplication = None, m_output = False,
      m_scaledTexture = None, m_needsScaling = False, m_colorConverter = None,
      m_callback = False, duplicate_calls = 0, capture_threads = 0\<rparr>"

text \<open>\<^verbatim>\<open>DisplayCapturer::ReinitializeDuplication\<close>; \<open>dup\<close> is what \<^verbatim>\<open>DuplicateOutput\<close>
  returns, a new handle or a failure.\<close>

definition ReinitializeDuplication ::
  "nat option \<Rightarrow> DisplayCapturer \<Rightarrow> fault + (bool \<times> DisplayCapturer)" where
  "ReinitializeDuplication dup st =
     (let st1 = st\<lparr>m_duplication := None\<rparr>
      in if \<not> m_output st1 then Inl NullDeref
         else let st2 = st1\<lparr>duplicate_calls := duplicate_calls st1 + 1\<rparr>
              in case dup of
                   None \<Rightarrow> Inr (False, st2)
                 | Some h \<Rightarrow> Inr (True, st2\<lparr>m_duplication := Some h\<rparr>))"

text \<open>What the system answers during one \<^verbatim>\<open>AcquireNextFrame\<close>.\<close>

record acquire_os =
  os_DuplicateOutput :: "nat option"
  os_AcquireNextFrame :: hresult
  os_desktopTexture :: "texture option"
  os_CreateTexture2D :: hresult

definition AcquireNextFrame ::
  "acquire_os \<Rightarrow> DisplayCapturer \<Rightarrow> fault + (texture option \<times> DisplayCapturer)" where
  "AcquireNextFrame os st =
     (case (if m_duplication st = None
            then ReinitializeDuplication (os_DuplicateOutput os) st
            else Inr (True, st)) of
        Inl f \<Rightarrow> Inl f
      | Inr (ok, st1) \<Rightarrow>
          if \<not> ok then Inr (None, st1)
          else if m_duplication st1 = None then Inl NullDeref
          else if os_AcquireNextFrame os = DXGI_ERROR_WAIT_TIMEOUT then Inr (None, st1)
          else if os_AcquireNextFrame os = DXGI_ERROR_ACCESS_LOST
               then Inr (None, st1\<lparr>m_duplication := None\<rparr>)
          else if FAILED (os_AcquireNextFrame os) then Inr (None, st1)
          else case os_desktopTexture os of
                 None \<Rightarrow> Inr (None, st1)
               | Some desktopTexture \<Rightarrow>
                   if m_needsScaling st1 then
                     (case m_scaledTexture st1 of
                        None \<Rightarrow> Inl NullDeref
                      | Some scaled \<Rightarrow>
                          (case CopySubresourceRegion scaled 0 0 desktopTexture
                                  (srcBox (DisplayCapturer.m_width st1)
                                          (DisplayCapturer.m_height st1)) of
                             None \<Rightarrow> Inl InvalidCopy
                           | Some scaled' \<Rightarrow>
                               Inr (Some scaled', st1\<lparr>m_scaledTexture := Some scaled'\<rparr>)))
                   else if FAILED (os_CreateTexture2D os) then Inr (None, st1)
                   else Inr (Some desktopTexture, st1))"

text \<open>What the system answers during \<^verbatim>\<open>DisplayCapturer::Initialize\<close>: \<open>os_outputs\<close> lists
  the native size of each output of the adapter, \<open>os_content\<close> is the initial content of a
  created texture.\<close>

record display_init_os =
  os_D3D11CreateDevice :: hresult
  os_QueryDXGIDevice :: hresult
  os_GetAdapter :: hresult
  os_outputs :: "(int \<times> int) list"
  os_QueryOutput1 :: hresult
  os_CreateScaled :: hresult
  os_content :: "nat \<Rightarrow> nat \<Rightarrow> 32 word"
  os_FirstDuplication :: "nat option"
  os_processor_ok :: bool
  os_textures_ok :: bool

definition DisplayCapturer_Initialize ::
  "display_init_os \<Rightarrow> int \<Rightarrow> int \<Rightarrow> int \<Rightarrow> int \<Rightarrow> DisplayCapturer
   \<Rightarrow> fault + (bool \<times> DisplayCapturer)" where
  "DisplayCapturer_Initialize os displayIndex width height fps st =
     (let st1 = st\<lparr>m_displayIndex := displayIndex, DisplayCapturer.m_width := width,
                   DisplayCapturer.m_height := height, m_fps := fps\<rparr>
      in if FAILED (os_D3D11CreateDevice os) then Inr (False, st1)
         else let st2 = st1\<lparr>m_device := True, m_context := True\<rparr>
         in if FAILED (os_QueryDXGIDevice os) then Inr (False, st2)
         else if FAILED (os_GetAdapter os) then Inr (False, st2)
         else if \<not> (0 \<le> displayIndex \<and> displayIndex < int (length (os_outputs os)))
              then Inr (False, st2)
         else if FAILED (os_QueryOutput1 os) then Inr (False, st2)
         else
           let st3 = st2\<lparr>m_output := True\<rparr>;
               nativeWidth = fst (os_outputs os ! nat displayIndex);
               nativeHeight = snd (os_outputs os ! nat displayIndex);
               scaling = (width \<noteq> nativeWidth \<or> height \<noteq> nativeHeight);
               st4 = (if scaling then st3\<lparr>m_needsScaling := True\<rparr> else st3)
           in if scaling \<and> FAILED (os_CreateScaled os) then Inr (False, st4)
              else
                let st5 = (if scaling
                           then st4\<lparr>m_scaledTexture :=
                                  Some (new_texture (nat (width mod 2 ^ 32))
                                          (nat (height mod 2 ^ 32)) (os_content os))\<rparr>
                           else st4)
                in case ReinitializeDuplication (os_FirstDuplication os) st5 of
                     Inl f \<Rightarrow> Inl f
                   | Inr (ok, st6) \<Rightarrow>
                       if \<not> ok then Inr (False, st6)
                       else
                         let r = GpuColorConverter_Initialize (os_processor_ok os)
                                   (os_textures_ok os) width height GpuColorConverter_new;
                             st7 = st6\<lparr>m_colorConverter := Some (snd r)\<rparr>
                         in Inr (fst r, st7))"

text \<open>\<^verbatim>\<open>DisplayCapturer::Start\<close> and \<^verbatim>\<open>DisplayCapturer::Stop\<close>.\<close>

definition DisplayCapturer_Start :: "DisplayCapturer \<Rightarrow> DisplayCapturer" where
  "DisplayCapturer_Start st =
     (if DisplayCapturer.m_running st then st
      else st\<lparr>DisplayCapturer.m_callback := True, DisplayCapturer.m_running := True,
              capture_threads := capture_threads st + 1\<rparr>)"

definition DisplayCapturer_Stop :: "DisplayCapturer \<Rightarrow> DisplayCapturer" where
  "DisplayCapturer_Stop st = st\<lparr>DisplayCapturer.m_running := False\<rparr>"

text \<open>One iteration of \<^verbatim>\<open>DisplayCapturer::CaptureLoop\<close>, lines 171-183.\<close>

definition deliver_frame ::
  "convert_os \<Rightarrow> 64 word \<Rightarrow> bool \<Rightarrow> GpuColorConverter option
   \<Rightarrow> fault + (video_frame option \<times> GpuColorConverter option)" where
  "deliver_frame cvt timestamp callback conv =
     (case conv of
        None \<Rightarrow> Inl NullDeref
      | Some c \<Rightarrow>
          (case Convert cvt c of
             Inl f \<Rightarrow> Inl f
           | Inr (nullptr, c1) \<Rightarrow> Inr (None, Some c1)
           | Inr (Ptr nv12Data, c1) \<Rightarrow>
               Inr (if callback
                    then Some \<lparr>frame_data = nv12Data, frame_size = m_nv12Size c1,
                               frame_timestamp = timestamp\<rparr>
                    else None, Some c1)))"

text \<open>The frames that successive conversions of a session hand to the callback: one
  \<open>deliver_frame\<close> per captured texture, each on the converter the previous one left.\<close>

fun deliver_all ::
  "(convert_os \<times> 64 word) list \<Rightarrow> bool \<Rightarrow> GpuColorConverter option
   \<Rightarrow> fault + (video_frame list \<times> GpuColorConverter option)" where
  "deliver_all [] callback conv = Inr ([], conv)"
| "deliver_all ((cvt, timestamp) # rest) callback conv =
     (case deliver_frame cvt timestamp callback conv of
        Inl f \<Rightarrow> Inl f
      | Inr (frame, conv1) \<Rightarrow>
          (case deliver_all rest callback conv1 of
             Inl f \<Rightarrow> Inl f
           | Inr (frames, conv2) \<Rightarrow>
               Inr ((case frame of None \<Rightarrow> [] | Some f \<Rightarrow> [f]) @ frames, conv2)))"

definition DisplayCapturer_tick ::
  "acquire_os \<Rightarrow> convert_os \<Rightarrow> 64 word \<Rightarrow> DisplayCapturer
   \<Rightarrow> fault + (video_frame option \<times> DisplayCapturer)" where
  "DisplayCapturer_tick acq cvt timestamp st =
     (case AcquireNextFrame acq st of
        Inl f \<Rightarrow> Inl f
      | Inr (None, st1) \<Rightarrow> Inr (None, st1)
      | Inr (Some frameTexture, st1) \<Rightarrow>
          (case deliver_frame cvt timestamp (DisplayCapturer.m_callback st1)
                  (m_colorConverter st1) of
             Inl f \<Rightarrow> Inl f
           | Inr (frame, conv) \<Rightarrow> Inr (frame, st1\<lparr>m_colorConverter := conv\<rparr>)))"

section \<open>Window capturer\<close>

text \<open>The WinRT members are modelled by whether they hold an object. \<open>capture_started\<close> is
  ghost state: \<^verbatim>\<open>StartCapture\<close> has been called on the session.\<close>

record WindowCapturer =
  m_width :: int
  m_height :: int
  m_fps :: int
  m_running :: bool
  m_device :: bool
  m_context :: bool
  m_captureItem :: bool
  m_framePool :: bool
  m_session :: bool
  m_scaledTexture :: "texture option"
  m_needsScaling :: bool
  m_colorConverter :: "GpuColorConverter option"
  m_callback :: bool
  capture_started :: bool

definition WindowCapturer_new :: WindowCapturer where
  "WindowCapturer_new =
     \<lparr>m_width = 0, m_height = 0, m_fps = 30, m_running = False, m_device = False,
      m_context = False, m_captureItem = False, m_framePool = False, m_session = False,
      m_scaledTexture = None, m_needsScaling = False, m_colorConverter = None,
      m_callback = False, capture_started = False\<rparr>"

text \<open>What the system answers during \<^verbatim>\<open>WindowCapturer::Initialize\<close>: \<open>os_itemSize\<close> is
  the size of the capture item, if one could be created for the window.\<close>

record window_init_os =
  os_IsSupported :: bool
  os_CreateDevice :: hresult
  os_itemSize :: "(int \<times> int) option"
  os_CreateScaledW :: hresult
  os_contentW :: "nat \<Rightarrow> nat \<Rightarrow> 32 word"
  os_processor_okW :: bool
  os_textures_okW :: bool

definition WindowCapturer_Initialize ::
  "window_init_os \<Rightarrow> int \<Rightarrow> int \<Rightarrow> int \<Rightarrow> WindowCapturer \<Rightarrow> bool \<times> WindowCapturer" where
  "WindowCapturer_Initialize os width height fps st =
     (if \<not> os_IsSupported os then (False, st)
      else
        let st1 = st\<lparr>WindowCapturer.m_width := width, WindowCapturer.m_height := height,
                     WindowCapturer.m_fps := fps\<rparr>
        in if FAILED (os_CreateDevice os) then (False, st1)
           else
             let st2 = st1\<lparr>WindowCapturer.m_device := True, WindowCapturer.m_context := True\<rparr>
             in case os_itemSize os of
                  None \<Rightarrow> (False, st2)
                | Some (windowWidth, windowHeight) \<Rightarrow>
                    let st3 = st2\<lparr>m_captureItem := True\<rparr>;
                        scaling = (width \<noteq> windowWidth \<or> height \<noteq> windowHeight);
                        st4 = (if scaling then st3\<lparr>WindowCapturer.m_needsScaling := True\<rparr>
                               else st3)
                    in if scaling \<and> FAILED (os_CreateScaledW os) then (False, st4)
                       else
                         let st5 = (if scaling
                                    then st4\<lparr>WindowCapturer.m_scaledTexture :=
                                           Some (new_texture (nat (width mod 2 ^ 32))
                                                   (nat (height mod 2 ^ 32)) (os_contentW os))\<rparr>
                                    else st4);
                             st6 = st5\<lparr>m_framePool := True, m_session := True\<rparr>;
                             r = GpuColorConverter_Initialize (os_processor_okW os)
                                   (os_textures_okW os) width height GpuColorConverter_new
                         in (fst r, st6\<lparr>WindowCapturer.m_colorConverter := Some (snd r)\<rparr>))"

text \<open>\<^verbatim>\<open>WindowCapturer::Start\<close>.\<close>

definition WindowCapturer_Start :: "WindowCapturer \<Rightarrow> fault + WindowCapturer" where
  "WindowCapturer_Start st =
     (if WindowCapturer.m_running st then Inr st
      else let st1 = st\<lparr>WindowCapturer.m_callback := True, WindowCapturer.m_running := True\<rparr>
           in if \<not> m_session st1 then Inl NullDeref
              else Inr (st1\<lparr>capture_started := True\<rparr>))"

text \<open>What the system answers during one \<^verbatim>\<open>OnFrameArrived\<close>: whether
  \<^verbatim>\<open>TryGetNextFrame\<close> returns a frame, the texture of its surface, and the result of creating
  the copy texture.\<close>

record frame_os =
  os_frame :: bool
  os_texture :: "texture option"
  os_CreateCopy :: hresult

text \<open>\<^verbatim>\<open>WindowCapturer::OnFrameArrived\<close>, lines 196-231: the texture handed to the colour
  converter, if the frame gets that far.\<close>

definition process_texture ::
  "frame_os \<Rightarrow> WindowCapturer \<Rightarrow> fault + (texture option \<times> WindowCapturer)" where
  "process_texture os st =
     (if \<not> WindowCapturer.m_running st then Inr (None, st)
      else if \<not> os_frame os then Inr (None, st)
      else case os_texture os of
             None \<Rightarrow> Inr (None, st)
           | Some tex \<Rightarrow>
               if WindowCapturer.m_needsScaling st then
                 (case WindowCapturer.m_scaledTexture st of
                    None \<Rightarrow> Inl NullDeref
                  | Some scaled \<Rightarrow>
                      (case CopySubresourceRegion scaled 0 0 tex
                              (srcBox (WindowCapturer.m_width st)
                                      (WindowCapturer.m_height st)) of
                         None \<Rightarrow> Inl InvalidCopy
                       | Some scaled' \<Rightarrow>
                           Inr (Some scaled',
                                st\<lparr>WindowCapturer.m_scaledTexture := Some scaled'\<rparr>)))
               else if FAILED (os_CreateCopy os) then Inl NullDeref
               else Inr (Some tex, st))"

text \<open>The whole of \<^verbatim>\<open>OnFrameArrived\<close>.\<close>

definition OnFrameArrived ::
  "frame_os \<Rightarrow> convert_os \<Rightarrow> 64 word \<Rightarrow> WindowCapturer
   \<Rightarrow> fault + (video_frame option \<times> WindowCapturer)" where
  "OnFrameArrived os cvt timestamp st =
     (case process_texture os st of
        Inl f \<Rightarrow> Inl f
      | Inr (None, st1) \<Rightarrow> Inr (None, st1)
      | Inr (Some processTexture, st1) \<Rightarrow>
          (case deliver_frame cvt timestamp (WindowCapturer.m_callback st1)
                  (WindowCapturer.m_colorConverter st1) of
             Inl f \<Rightarrow> Inl f
           | Inr (frame, conv) \<Rightarrow>
               Inr (frame, st1\<lparr>WindowCapturer.m_colorConverter := conv\<rparr>)))"


section \<open>Worker threads and Stop\<close>

text \<open>
  The capture thread and a thread that calls \<^verbatim>\<open>Stop\<close>, interleaved by a schedule: each
  element of the schedule lets one of the two threads take its next step. The only shared
  variable is the atomic flag \<open>m_running\<close>. The trace records the invocations of the
  registered callback and the returns of \<^verbatim>\<open>Stop\<close>.
\<close>

datatype event = CallbackInvoked | StopReturned

fun no_callback_after_stop :: "event list \<Rightarrow> bool" where
  "no_callback_after_stop [] = True"
| "no_callback_after_stop (StopReturned # es) = (CallbackInvoked \<notin> set es)"
| "no_callback_after_stop (CallbackInvoked # es) = no_callback_after_stop es"

subsection \<open>Display capturer\<close>

text \<open>\<^verbatim>\<open>DisplayCapturer::CaptureLoop\<close>, run by the thread that \<^verbatim>\<open>Start\<close> detaches: the test
  of the \<^verbatim>\<open>while\<close>, the acquisition and conversion of a frame, the callback, the pacing
  sleep. \<^verbatim>\<open>DisplayCapturer::Stop\<close> is the single store \<^verbatim>\<open>m_running = false\<close>.\<close>

datatype display_pc = D_While | D_Acquire | D_Callback | D_Pace | D_Exit

record display_threads =
  d_running :: bool
  d_pc :: display_pc
  d_trace :: "event list"

text \<open>\<open>Capture frame\<close>: the capture thread takes a step; \<open>frame\<close> tells whether
  \<^verbatim>\<open>AcquireNextFrame\<close> and \<^verbatim>\<open>Convert\<close> yield a frame for the callback.\<close>

datatype display_sched = Capture bool | CallStop

fun display_step :: "display_sched \<Rightarrow> display_threads \<Rightarrow> display_threads" where
  "display_step (Capture frame) s =
     (case d_pc s of
        D_While \<Rightarrow> s\<lparr>d_pc := (if d_running s then D_Acquire else D_Exit)\<rparr>
      | D_Acquire \<Rightarrow> s\<lparr>d_pc := (if frame then D_Callback else D_Pace)\<rparr>
      | D_Callback \<Rightarrow> s\<lparr>d_pc := D_Pace, d_trace := d_trace s @ [CallbackInvoked]\<rparr>
      | D_Pace \<Rightarrow> s\<lparr>d_pc := D_While\<rparr>
      | D_Exit \<Rightarrow> s)"
| "display_step CallStop s = s\<lparr>d_running := False, d_trace := d_trace s @ [StopReturned]\<rparr>"

text \<open>A running session: \<^verbatim>\<open>Start\<close> has set the flag and detached the thread.\<close>

definition display_started :: display_threads where
  "display_started = \<lparr>d_running = True, d_pc = D_While, d_trace = []\<rparr>"

subsection \<open>Audio capturer\<close>

text \<open>\<^verbatim>\<open>AudioCapturer::CaptureLoop\<close> and \<^verbatim>\<open>AudioCapturer::Stop\<close>. \<open>a_pending\<close> is
  \<^verbatim>\<open>packetLength > 0\<close>.\<close>

datatype audio_pc =
  A_While | A_PacketSize | A_InnerWhile | A_GetBuffer | A_Callback | A_NextPacketSize
  | A_Sleep | A_Exit

datatype stop_pc = S_NotCalled | S_Clear | S_ClientStop | S_Join | S_Returned

record audio_threads =
  a_running :: bool
  a_pc :: audio_pc
  a_pending :: bool
  a_stop :: stop_pc
  a_trace :: "event list"

text \<open>What the system answers to the step of the capture thread: whether the WASAPI call
  of the step fails, whether \<^verbatim>\<open>GetNextPacketSize\<close> reports a packet, and whether the
  buffer yields a packet for the callback (\<^verbatim>\<open>m_callback && !m_outputBuffer.empty()\<close>).\<close>

record audio_os =
  os_failed :: bool
  os_packet :: bool
  os_output :: bool

datatype audio_sched = CaptureA audio_os | StopA

fun audio_step :: "audio_sched \<Rightarrow> audio_threads \<Rightarrow> audio_threads" where
  "audio_step (CaptureA os) s =
     (case a_pc s of
        A_While \<Rightarrow> s\<lparr>a_pc := (if a_running s then A_PacketSize else A_Exit)\<rparr>
      | A_PacketSize \<Rightarrow>
          (if os_failed os then s\<lparr>a_pc := A_Exit\<rparr>
           else s\<lparr>a_pc := A_InnerWhile, a_pending := os_packet os\<rparr>)
      | A_InnerWhile \<Rightarrow> s\<lparr>a_pc := (if a_pending s \<and> a_running s then A_GetBuffer else A_Sleep)\<rparr>
      | A_GetBuffer \<Rightarrow>
          (if os_failed os then s\<lparr>a_pc := A_Sleep\<rparr>
           else s\<lparr>a_pc := (if os_output os then A_Callback else A_NextPacketSize)\<rparr>)
      | A_Callback \<Rightarrow> s\<lparr>a_pc := A_NextPacketSize, a_trace := a_trace s @ [CallbackInvoked]\<rparr>
      | A_NextPacketSize \<Rightarrow>
          (if os_failed os then s\<lparr>a_pc := A_Sleep\<rparr>
           else s\<lparr>a_pc := A_InnerWhile, a_pending := os_packet os\<rparr>)
      | A_Sleep \<Rightarrow> s\<lparr>a_pc := A_While\<rparr>
      | A_Exit \<Rightarrow> s)"
| "audio_step StopA s =
     (case a_stop s of
        S_NotCalled \<Rightarrow>
          (if \<not> a_running s then s\<lparr>a_stop := S_Returned, a_trace := a_trace s @ [StopReturned]\<rparr>
           else s\<lparr>a_stop := S_Clear\<rparr>)
      | S_Clear \<Rightarrow> s\<lparr>a_running := False, a_stop := S_ClientStop\<rparr>
      | S_ClientStop \<Rightarrow> s\<lparr>a_stop := S_Join\<rparr>
      | S_Join \<Rightarrow>
          (if a_pc s = A_Exit then s\<lparr>a_stop := S_Returned, a_trace := a_trace s @ [StopReturned]\<rparr>
           else s)
      | S_Returned \<Rightarrow> s)"

definition audio_started :: audio_threads where
  "audio_started =
     \<lparr>a_running = True, a_pc = A_While, a_pending = False, a_stop = S_NotCalled, a_trace = []\<rparr>"

section \<open>Notions used in the statements\<close>

text \<open>An interleaved stereo buffer in which every frame has the same left and right
  sample.\<close>

definition left_eq_right :: "'a list \<Rightarrow> bool" where
  "left_eq_right xs \<longleftrightarrow> (\<forall>k. 2 * k + 1 < length xs \<longrightarrow> xs ! (2 * k) = xs ! (2 * k + 1))"

text \<open>A session that crops to \<open>w \<times> h\<close>: it was initialised with a requested size
  different from the native one, so that \<open>m_needsScaling\<close> is set and \<open>m_scaledTexture\<close>
  is the \<open>w \<times> h\<close> texture created for it.\<close>

definition crops_to :: "nat \<Rightarrow> nat \<Rightarrow> bool \<Rightarrow> texture option \<Rightarrow> int \<Rightarrow> int \<Rightarrow> bool" where
  "crops_to w h needsScaling scaledTexture width height \<longleftrightarrow>
     needsScaling \<and> width = int w \<and> height = int h \<and> w < 2 ^ 32 \<and> h < 2 ^ 32 \<and>
     (\<exists>t. scaledTexture = Some t \<and> tex_width t = w \<and> tex_height t = h)"

definition display_crops_to :: "nat \<Rightarrow> nat \<Rightarrow> DisplayCapturer \<Rightarrow> bool" where
  "display_crops_to w h st \<longleftrightarrow>
     crops_to w h (DisplayCapturer.m_needsScaling st) (DisplayCapturer.m_scaledTexture st)
       (DisplayCapturer.m_width st) (DisplayCapturer.m_height st)"

definition window_crops_to :: "nat \<Rightarrow> nat \<Rightarrow> WindowCapturer \<Rightarrow> bool" where
  "window_crops_to w h st \<longleftrightarrow>
     crops_to w h (WindowCapturer.m_needsScaling st) (WindowCapturer.m_scaledTexture st)
       (WindowCapturer.m_width st) (WindowCapturer.m_height st)"

section \<open>Example sessions\<close>

text \<open>A mono 16-bit device at 64 kHz, a buffer of five frames with the samples
  16384, 0, -16384, 0, 8192, and the state after normalising it.\<close>

definition st64 :: AudioCapturer where
  "st64 =
     \<lparr>AudioCapturer.m_running = True, m_captureThread = True, m_audioClient = True,
      m_captureClient = True, m_isFloat = False, m_bitsPerSample = 16, m_channels = 1,
      m_sampleRate = 64000, m_resampleBuffer = [], m_outputBuffer = [],
      AudioCapturer.m_callback = True\<rparr>"

definition data5 :: "8 word list" where
  "data5 = [0x00, 0x40, 0x00, 0x00, 0x00, 0xC0, 0x00, 0x00, 0x00, 0x20]"

definition st64' :: AudioCapturer where
  "st64' =
     st64\<lparr>m_resampleBuffer :=
              [Finite (1 / 2), Finite (1 / 2), Finite 0, Finite 0, Finite (- (1 / 2)),
               Finite (- (1 / 2)), Finite 0, Finite 0, Finite (1 / 4), Finite (1 / 4)],
            m_outputBuffer := [16383, 16383, - 16383, - 16383, 8191, 8191]\<rparr>"

text \<open>A converter for 4 \<times> 3 frames, and a driver whose mapped staging texture has a row
  pitch of 8 bytes and holds at each offset the offset itself.\<close>

definition conv43 :: GpuColorConverter where
  "conv43 =
     \<lparr>GpuColorConverter.m_width = 4, GpuColorConverter.m_height = 3, m_nv12Size = 18,
      m_videoProcessor = True, m_stagingTexture = True, m_nv12Buffer = replicate 18 0\<rparr>"

definition mapped8 :: convert_os where
  "mapped8 =
     \<lparr>os_inputView = S_OK, os_blt = S_OK, os_map = S_OK, os_pData = (\<lambda>k. of_nat k),
      os_RowPitch = 8\<rparr>"

definition nv12_43 :: "8 word list" where
  "nv12_43 = [0, 1, 2, 3, 8, 9, 10, 11, 16, 17, 18, 19, 24, 25, 26, 27, 0, 0]"

text \<open>A display of 8 \<times> 6 pixels captured at a requested size of 4 \<times> 3, and the session
  that \<open>Initialize\<close> leaves; frames of the display and of a display of 2 \<times> 2 pixels.\<close>

definition init_display :: "(int \<times> int) list \<Rightarrow> display_init_os" where
  "init_display outputs =
     \<lparr>os_D3D11CreateDevice = S_OK, os_QueryDXGIDevice = S_OK, os_GetAdapter = S_OK,
      os_outputs = outputs, os_QueryOutput1 = S_OK, os_CreateScaled = S_OK,
      os_content = (\<lambda>x y. 0), os_FirstDuplication = Some 1, os_processor_ok = True,
      os_textures_ok = True\<rparr>"

definition disp43 :: DisplayCapturer where
  "disp43 =
     \<lparr>m_displayIndex = 0, DisplayCapturer.m_width = 4, DisplayCapturer.m_height = 3,
      DisplayCapturer.m_fps = 30, DisplayCapturer.m_running = False,
      DisplayCapturer.m_device = True, DisplayCapturer.m_context = True,
      m_duplication = Some 1, m_output = True,
      DisplayCapturer.m_scaledTexture = Some (new_texture 4 3 (\<lambda>x y. 0)),
      DisplayCapturer.m_needsScaling = True,
      DisplayCapturer.m_colorConverter = Some conv43, DisplayCapturer.m_callback = False,
      duplicate_calls = 1, capture_threads = 0\<rparr>"

definition native86 :: texture where
  "native86 = new_texture 8 6 (\<lambda>x y. of_nat (x + 10 * y))"

definition native22 :: texture where
  "native22 = new_texture 2 2 (\<lambda>x y. of_nat (x + 10 * y))"

definition tick_os :: "nat option \<Rightarrow> hresult \<Rightarrow> texture option \<Rightarrow> acquire_os" where
  "tick_os dup hr tex =
     \<lparr>os_DuplicateOutput = dup, os_AcquireNextFrame = hr, os_desktopTexture = tex,
      os_CreateTexture2D = S_OK\<rparr>"

text \<open>A window of 8 \<times> 6 pixels captured at a requested size of 4 \<times> 3.\<close>

definition init_window :: "(int \<times> int) option \<Rightarrow> window_init_os" where
  "init_window itemSize =
     \<lparr>os_IsSupported = True, os_CreateDevice = S_OK, os_itemSize = itemSize,
      os_CreateScaledW = S_OK, os_contentW = (\<lambda>x y. 0), os_processor_okW = True,
      os_textures_okW = True\<rparr>"

definition win43 :: WindowCapturer where
  "win43 =
     \<lparr>WindowCapturer.m_width = 4, WindowCapturer.m_height = 3, WindowCapturer.m_fps = 30,
      WindowCapturer.m_running = False, WindowCapturer.m_device = True,
      WindowCapturer.m_context = True, m_captureItem = True, m_framePool = True,
      m_session = True,
      WindowCapturer.m_scaledTexture = Some (new_texture 4 3 (\<lambda>x y. 0)),
      WindowCapturer.m_needsScaling = True,
      WindowCapturer.m_colorConverter = Some conv43, WindowCapturer.m_callback = False,
      capture_started = False\<rparr>"

definition win43_started :: WindowCapturer where
  "win43_started =
     win43\<lparr>WindowCapturer.m_callback := True, WindowCapturer.m_running := True,
            capture_started := True\<rparr>"

definition frame_arrives :: "texture \<Rightarrow> frame_os" where
  "frame_arrives tex = \<lparr>os_frame = True, os_texture = Some tex, os_CreateCopy = S_OK\<rparr>"

chapter \<open>Verified properties\<close>

section \<open>Rounding\<close>


lemma pow2_powi: "pow2 e = 2 powi e"
  by (simp add: pow2_def power_int_def inverse_eq_divide power_one_over)

lemma pow2_pos: "0 < pow2 e"
  by (simp add: pow2_def)

lemma pow2_add: "pow2 (a + b) = pow2 a * pow2 b"
  by (simp add: pow2_powi power_int_add)

lemma pow2_nat: "pow2 (int n) = 2 ^ n"
  by (simp add: pow2_def)

lemma pow2_mono: "a \<le> b \<Longrightarrow> pow2 a \<le> pow2 b"
  by (simp add: pow2_powi power_int_increasing)

lemma pow2_strict_mono: "a < b \<Longrightarrow> pow2 a < pow2 b"
  by (simp add: pow2_powi power_int_strict_increasing)

lemma pow2_less_cancel: "pow2 a < pow2 b \<Longrightarrow> a < b"
  using pow2_mono [of b a] by (cases "a < b") auto

lemma bit_length_bounds:
  "0 < n \<Longrightarrow> 2 ^ (bit_length n - 1) \<le> n \<and> n < 2 ^ bit_length n"
proof (induction n rule: bit_length.induct)
  case (1 n)
  show ?case
  proof (cases "n div 2 = 0")
    case True
    with "1.prems" have "n = 1" by (simp add: div_eq_0_iff) 
    then show ?thesis by (simp add: bit_length.simps)
  next
    case False
    with "1.prems" "1.IH" have ih:
      "2 ^ (bit_length (n div 2) - 1) \<le> n div 2" "n div 2 < 2 ^ bit_length (n div 2)"
      by auto
    have pos: "0 < bit_length (n div 2)"
      using False by (subst bit_length.simps) simp
    have bl: "bit_length n = Suc (bit_length (n div 2))"
      using "1.prems" by (subst bit_length.simps) simp
    from pos have "(2::nat) ^ bit_length (n div 2) = 2 * 2 ^ (bit_length (n div 2) - 1)"
      by (cases "bit_length (n div 2)") auto
    with ih show ?thesis unfolding bl by simp linarith
  qed
qed

lemma ilog2_bounds:
  assumes "0 < x"
  shows "pow2 (ilog2 x) \<le> x \<and> x < pow2 (ilog2 x + 1)"
proof (cases "1 \<le> x")
  case True
  define n where "n = nat \<lfloor>x\<rfloor>"
  have n: "0 < n" "rat_of_nat n \<le> x" "x < rat_of_nat n + 1"
    using True unfolding n_def by (auto simp: of_nat_nat) linarith+
  from bit_length_bounds [OF n(1)] have b: "2 ^ (bit_length n - 1) \<le> n" "n < 2 ^ bit_length n"
    by auto
  have pos: "0 < bit_length n" using n(1) by (subst bit_length.simps) simp
  have il: "ilog2 x = int (bit_length n) - 1"
    using True by (simp add: ilog2_def n_def)
  have e1: "pow2 (int (bit_length n) - 1) = 2 ^ (bit_length n - 1)"
    using pos pow2_nat [of "bit_length n - 1"] by (simp add: of_nat_diff)
  have e2: "pow2 (int (bit_length n) - 1 + 1) = 2 ^ bit_length n"
    using pow2_nat [of "bit_length n"] by simp
  have "rat_of_nat (2 ^ (bit_length n - 1)) \<le> rat_of_nat n"
    using b(1) by (rule of_nat_mono)
  moreover have "rat_of_nat (2 ^ (bit_length n - 1)) = 2 ^ (bit_length n - 1)" by simp
  ultimately have l: "(2::rat) ^ (bit_length n - 1) \<le> x" using n(2) by linarith
  have "n + 1 \<le> 2 ^ bit_length n" using b(2) by simp
  then have "rat_of_nat (n + 1) \<le> rat_of_nat (2 ^ bit_length n)"
    by (rule of_nat_mono)
  moreover have "rat_of_nat (2 ^ bit_length n) = 2 ^ bit_length n" by simp
  moreover have "rat_of_nat (n + 1) = rat_of_nat n + 1" by simp
  ultimately have u: "x < (2::rat) ^ bit_length n" using n(3) by linarith
  show ?thesis unfolding il e1 e2 using l u by simp
next
  case False
  define c where "c = \<lceil>1 / x\<rceil>"
  define n where "n = nat (c - 1)"
  from False assms have y: "1 < 1 / x" by simp
  then have c2: "2 \<le> c" unfolding c_def by linarith
  have cy: "1 / x \<le> of_int c" "of_int c - 1 < 1 / x"
    unfolding c_def by linarith+
  have n: "0 < n" "int n = c - 1" using c2 unfolding n_def by auto
  from bit_length_bounds [OF n(1)] have b: "2 ^ (bit_length n - 1) \<le> n" "n < 2 ^ bit_length n"
    by auto
  have pos: "0 < bit_length n" using n(1) by (subst bit_length.simps) simp
  have il: "ilog2 x = - int (bit_length n)"
    using False by (simp add: ilog2_def n_def c_def)
  have e1: "pow2 (- int (bit_length n)) = 1 / 2 ^ bit_length n"
    by (simp add: pow2_def)
  have e2: "pow2 (- int (bit_length n) + 1) = 1 / 2 ^ (bit_length n - 1)"
    using pos by (cases "bit_length n") (auto simp: pow2_def nat_diff_distrib)
  have "int n + 1 \<le> 2 ^ bit_length n" using b(2) 
    by (metis of_nat_less_iff of_nat_numeral of_nat_power zless_imp_add1_zle)
  then have "c \<le> 2 ^ bit_length n" using n(2) by simp
  then have "rat_of_int c \<le> rat_of_int (2 ^ bit_length n)" by (simp only: of_int_le_iff)
  moreover have "rat_of_int (2 ^ bit_length n) = 2 ^ bit_length n" by simp
  ultimately have u: "1 / x \<le> 2 ^ bit_length n" using cy(1) by linarith
  have "int (2 ^ (bit_length n - 1)) \<le> int n" using b(1) of_nat_le_iff by blast
  then have "2 ^ (bit_length n - 1) \<le> c - 1" using n(2) by simp
  then have "rat_of_int (2 ^ (bit_length n - 1)) \<le> rat_of_int (c - 1)"
    by (simp only: of_int_le_iff)
  moreover have "rat_of_int (2 ^ (bit_length n - 1)) = 2 ^ (bit_length n - 1)" by simp
  moreover have "rat_of_int (c - 1) = rat_of_int c - 1" by simp
  ultimately have l: "2 ^ (bit_length n - 1) < 1 / x" using cy(2) by linarith
  have r1: "1 / 2 ^ bit_length n \<le> x"
    using u assms by (simp add: field_simps)
  have r2: "x < 1 / 2 ^ (bit_length n - 1)"
    using l assms by (simp add: field_simps)
  show ?thesis unfolding il e1 e2 using r1 r2 by simp
qed

lemma ilog2_unique:
  assumes "pow2 k \<le> x" "x < pow2 (k + 1)"
  shows "ilog2 x = k"
proof -
  have x: "0 < x" using assms(1) pow2_pos [of k] by linarith
  from ilog2_bounds [OF x] have b: "pow2 (ilog2 x) \<le> x" "x < pow2 (ilog2 x + 1)" by auto
  have "pow2 (ilog2 x) < pow2 (k + 1)" using b(1) assms(2) by linarith
  then have 1: "ilog2 x < k + 1" by (rule pow2_less_cancel)
  have "pow2 k < pow2 (ilog2 x + 1)" using b(2) assms(1) by linarith
  then have 2: "k < ilog2 x + 1" by (rule pow2_less_cancel)
  from 1 2 show ?thesis by simp
qed

lemma round_half_even_nearest:
  assumes "\<bar>x - of_int m\<bar> < 1 / 2"
  shows "round_half_even x = m"
proof (cases "of_int m \<le> x")
  case True
  with assms have "\<lfloor>x\<rfloor> = m" by (intro floor_unique) auto
  with assms True show ?thesis by (simp add: round_half_even_def Let_def)
next
  case False
  with assms have f: "\<lfloor>x\<rfloor> = m - 1" by (intro floor_unique) auto
  with assms False show ?thesis by (auto simp add: round_half_even_def Let_def)
qed

lemma round_fp_nearest:
  assumes e: "pow2 (e + int p - 1) \<le> \<bar>x\<bar>" "\<bar>x\<bar> < pow2 (e + int p)"
      and emin: "emin - (int p - 1) \<le> e"
      and m: "\<bar>x / pow2 e - of_int m\<bar> < 1 / 2"
      and r: "r = of_int m * pow2 e"
      and fin: "\<bar>r\<bar> < pow2 (emax + 1)"
  shows "round_fp p emin emax x = Finite r"
proof -
  have x0: "x \<noteq> 0" using e(1) pow2_pos [of "e + int p - 1"] by auto
  have "ilog2 \<bar>x\<bar> = e + int p - 1"
    using e by (intro ilog2_unique) (simp_all add: algebra_simps)
  then have q: "max (ilog2 \<bar>x\<bar>) emin - (int p - 1) = e" using emin by simp
  have rh: "round_half_even (x / pow2 e) = m" using m by (rule round_half_even_nearest)
  show ?thesis
    using x0 fin unfolding round_fp_def q Let_def rh r by simp
qed

lemma to_double_int:
  assumes "\<bar>k\<bar> < 2 ^ 53"
  shows "to_double (of_int k) = Finite (of_int k)"
proof (cases "k = 0")
  case True
  then show ?thesis by (simp add: to_double_def round_fp_def)
next
  case False
  define x :: rat where "x = of_int k"
  define L where "L = ilog2 \<bar>x\<bar>"
  have xpos: "0 < \<bar>x\<bar>" using False by (simp add: x_def)
  from ilog2_bounds [OF xpos] have b: "pow2 L \<le> \<bar>x\<bar>" "\<bar>x\<bar> < pow2 (L + 1)"
    by (auto simp: L_def)
  have "1 \<le> \<bar>k\<bar>" using False by linarith
  then have "rat_of_int 1 \<le> rat_of_int \<bar>k\<bar>" by (simp only: of_int_le_iff)
  then have "1 \<le> \<bar>x\<bar>" unfolding x_def by simp
  then have "pow2 0 < pow2 (L + 1)" using b(2) by (simp add: pow2_def)
  then have L0: "0 \<le> L" using pow2_less_cancel by fastforce
  have "rat_of_int \<bar>k\<bar> < rat_of_int (2 ^ 53)" using assms by (simp only: of_int_less_iff)
  then have "\<bar>x\<bar> < pow2 53" unfolding x_def pow2_def by simp
  then have "pow2 L < pow2 53" using b(1) by linarith
  then have L52: "L \<le> 52" using pow2_less_cancel by fastforce
  define e where "e = L - 52"
  define m where "m = k * 2 ^ nat (- e)"
  have pe: "pow2 e = 1 / 2 ^ nat (- e)"
    using L52 unfolding e_def pow2_def by (cases "L = 52") auto
  have xm: "x / pow2 e = of_int m" unfolding pe m_def x_def by simp
  have mr: "x = of_int m * pow2 e" unfolding pe m_def x_def by simp
  have "round_fp 53 (- 1022) 1023 x = Finite x"
  proof (rule round_fp_nearest [where e = e and m = m])
    show "pow2 (e + int 53 - 1) \<le> \<bar>x\<bar>" using b(1) by (simp add: e_def)
    show "\<bar>x\<bar> < pow2 (e + int 53)" using b(2) by (simp add: e_def add.commute)
    show "- 1022 - (int 53 - 1) \<le> e" using L0 by (simp add: e_def)
    show "\<bar>x / pow2 e - rat_of_int m\<bar> < 1 / 2" using xm by simp
    show "x = rat_of_int m * pow2 e" by (rule mr)
    show "\<bar>x\<bar> < pow2 (1023 + 1)"
      using \<open>\<bar>x\<bar> < pow2 53\<close> pow2_strict_mono [of 53 1024] by simp
  qed
  then show ?thesis by (simp add: to_double_def x_def)
qed


lemma round_fp_dyadic:
  assumes k: "\<bar>k\<bar> < 2 ^ p" and emin: "emin \<le> e" and emax: "e + int p \<le> emax + 1"
  shows "round_fp p emin emax (of_int k * pow2 e) = Finite (of_int k * pow2 e)"
proof (cases "k = 0")
  case True
  then show ?thesis by (simp add: round_fp_def)
next
  case False
  define x :: rat where "x = of_int k * pow2 e"
  define L where "L = ilog2 \<bar>rat_of_int k\<bar>"
  have kpos: "0 < \<bar>rat_of_int k\<bar>" using False by simp
  from ilog2_bounds [OF kpos]
  have b: "pow2 L \<le> \<bar>rat_of_int k\<bar>" "\<bar>rat_of_int k\<bar> < pow2 (L + 1)"
    by (auto simp: L_def)
  have "1 \<le> \<bar>k\<bar>" using False by linarith
  then have "rat_of_int 1 \<le> rat_of_int \<bar>k\<bar>" by (simp only: of_int_le_iff)
  then have "pow2 0 < pow2 (L + 1)" using b(2) by (simp add: pow2_def)
  then have L0: "0 \<le> L" using pow2_less_cancel by fastforce
  have "rat_of_int \<bar>k\<bar> < rat_of_int (2 ^ p)" using k by (simp only: of_int_less_iff)
  then have kp: "\<bar>rat_of_int k\<bar> < pow2 (int p)" by (simp add: pow2_nat)
  then have "pow2 L < pow2 (int p)" using b(1) by linarith
  then have Lp: "L < int p" by (rule pow2_less_cancel)
  define q where "q = L + e - (int p - 1)"
  define m where "m = k * 2 ^ nat (int p - 1 - L)"
  have ax: "\<bar>x\<bar> = \<bar>rat_of_int k\<bar> * pow2 e"
    unfolding x_def using pow2_pos [of e] by (simp add: abs_mult)
  have pq: "pow2 e = pow2 q * pow2 (int p - 1 - L)"
    unfolding q_def by (simp flip: pow2_add)
  have pn: "pow2 (int p - 1 - L) = 2 ^ nat (int p - 1 - L)"
    using Lp by (simp add: pow2_def)
  have xm: "x = rat_of_int m * pow2 q"
    unfolding x_def m_def pq pn by simp
  have "round_fp p emin emax x = Finite x"
  proof (rule round_fp_nearest [where e = q and m = m])
    have "pow2 (q + int p - 1) = pow2 L * pow2 e" unfolding q_def by (simp flip: pow2_add)
    also have "\<dots> \<le> \<bar>x\<bar>" unfolding ax using b(1) pow2_pos [of e] by simp
    finally show "pow2 (q + int p - 1) \<le> \<bar>x\<bar>" .
    have "\<bar>x\<bar> < pow2 (L + 1) * pow2 e" unfolding ax using b(2) pow2_pos [of e] by simp
    also have "\<dots> = pow2 (q + int p)" unfolding q_def by (simp flip: pow2_add add: algebra_simps)
    finally show "\<bar>x\<bar> < pow2 (q + int p)" .
    show "emin - (int p - 1) \<le> q" using L0 emin by (simp add: q_def)
    show "\<bar>x / pow2 q - rat_of_int m\<bar> < 1 / 2" using xm pow2_pos [of q] by simp
    show "x = rat_of_int m * pow2 q" by (rule xm)
    have "\<bar>x\<bar> < pow2 (int p) * pow2 e" unfolding ax using kp pow2_pos [of e] by simp
    also have "\<dots> = pow2 (int p + e)" by (simp add: pow2_add)
    also have "\<dots> \<le> pow2 (emax + 1)" using emax by (intro pow2_mono) simp
    finally show "\<bar>x\<bar> < pow2 (emax + 1)" .
  qed
  then show ?thesis by (simp add: x_def)
qed

lemma round_fp_int:
  assumes "\<bar>k\<bar> < 2 ^ p" "emin \<le> 0" "int p \<le> emax + 1"
  shows "round_fp p emin emax (of_int k) = Finite (of_int k)"
  using round_fp_dyadic [of k p emin 0 emax] assms by (simp add: pow2_def)

lemma to_double_of_int: "\<bar>k\<bar> < 2 ^ 53 \<Longrightarrow> to_double (of_int k) = Finite (of_int k)"
  unfolding to_double_def by (rule round_fp_int) simp_all

lemma to_float_of_int: "\<bar>k\<bar> < 2 ^ 24 \<Longrightarrow> to_float (of_int k) = Finite (of_int k)"
  unfolding to_float_def by (rule round_fp_int) simp_all

lemma to_double_of_nat: "n < 2 ^ 53 \<Longrightarrow> to_double (of_nat n) = Finite (of_nat n)"
  using to_double_of_int [of "int n"] by simp

text \<open>Evaluation rules on numerals.\<close>

lemma to_double_0: "to_double 0 = Finite 0"
  by (simp add: to_double_def round_fp_def)

lemma to_float_0: "to_float 0 = Finite 0"
  by (simp add: to_float_def round_fp_def)

lemma to_double_1: "to_double 1 = Finite 1"
  using to_double_of_int [of 1] by simp

lemma to_float_1: "to_float 1 = Finite 1"
  using to_float_of_int [of 1] by simp

lemma to_double_numeral:
  "(numeral k :: int) < 2 ^ 53 \<Longrightarrow> to_double (numeral k) = Finite (numeral k)"
  using to_double_of_int [of "numeral k"] by simp

lemma to_double_neg_numeral:
  "(numeral k :: int) < 2 ^ 53 \<Longrightarrow> to_double (- numeral k) = Finite (- numeral k)"
  using to_double_of_int [of "- numeral k"] by simp

lemma to_float_numeral:
  "(numeral k :: int) < 2 ^ 24 \<Longrightarrow> to_float (numeral k) = Finite (numeral k)"
  using to_float_of_int [of "numeral k"] by simp

lemma to_float_neg_numeral:
  "(numeral k :: int) < 2 ^ 24 \<Longrightarrow> to_float (- numeral k) = Finite (- numeral k)"
  using to_float_of_int [of "- numeral k"] by simp

lemma pow2_neg_nat: "pow2 (- int n) = 1 / 2 ^ n"
  by (cases "n = 0") (simp_all add: pow2_def)

lemma to_double_dyadic:
  "\<bar>k\<bar> < 2 ^ 53 \<Longrightarrow> n \<le> 1022 \<Longrightarrow> to_double (of_int k / 2 ^ n) = Finite (of_int k / 2 ^ n)"
  unfolding to_double_def
  using round_fp_dyadic [of k 53 "- 1022" "- int n" 1023] by (simp add: pow2_neg_nat)

lemma to_float_dyadic:
  "\<bar>k\<bar> < 2 ^ 24 \<Longrightarrow> n \<le> 126 \<Longrightarrow> to_float (of_int k / 2 ^ n) = Finite (of_int k / 2 ^ n)"
  unfolding to_float_def
  using round_fp_dyadic [of k 24 "- 126" "- int n" 127] by (simp add: pow2_neg_nat)

lemma int_sample_16:
  assumes "- 32768 \<le> v" "v \<le> 32767"
  shows "int_sample v 32768 = Finite (of_int v / 32768)"
proof -
  have 1: "to_float (of_int v) = Finite (of_int v)" using assms by (intro to_float_of_int) simp
  have 2: "to_float (of_int v / 2 ^ 15) = Finite (of_int v / 2 ^ 15)"
    using assms by (intro to_float_dyadic) simp_all
  show ?thesis unfolding int_sample_def 1 using 2 by simp
qed

lemma rat_floor_numeral_div: "\<lfloor>numeral a / numeral b :: rat\<rfloor> = numeral a div numeral b"
  by (metis floor_divide_of_int_eq of_int_numeral)

lemma rat_ceiling_neg_numeral_div:
  "\<lceil>- (numeral a / numeral b) :: rat\<rceil> = - (numeral a div numeral b)"
  unfolding ceiling_def by (simp add: rat_floor_numeral_div)

section \<open>Audio normalisation\<close>

subsection \<open>The clamp of the source index\<close>


lemma unat_minus_1:
  assumes "1 \<le> unat (n :: 32 word)"
  shows "unat (n - 1) = unat n - 1"
proof -
  have "(1 :: 32 word) \<le> n" using assms by (simp add: word_le_nat_alt)
  from unat_sub [OF this] show ?thesis by simp
qed

lemma unat_minus_2:
  assumes "2 \<le> unat (n :: 32 word)"
  shows "unat (n - 2) = unat n - 2"
proof -
  have "(2 :: 32 word) \<le> n" using assms by (simp add: word_le_nat_alt)
  from unat_sub [OF this] show ?thesis by simp
qed

text \<open>
  Claim C9. In the resampling path, for an input of at least two frames, the source index
  after the clamp is at most \<open>numFrames - 2\<close>, whatever index the conversion of the source
  position produced: the frames \<open>srcIndex\<close> and \<open>srcIndex + 1\<close> are frames of the input, and
  the four elements read from the stereo buffer of \<open>2 * numFrames\<close> samples are inside
  it. With a single input frame the clamp assigns \<open>numFrames - 2\<close>, which wraps to
  \<open>2\<^sup>3\<^sup>2 - 1\<close>: the bound needs \<open>numFrames \<ge> 2\<close>.
\<close>

theorem interpolation_reads_in_range:
  "(2 \<le> unat numFrames \<longrightarrow>
      (let srcIndex = fst (clamp_index numFrames srcIndex0 fraction0)
       in srcIndex \<le> unat numFrames - 2 \<and> srcIndex + 1 < unat numFrames \<and>
          (srcIndex * 2) mod 2 ^ 64 < 2 * unat numFrames \<and>
          (srcIndex * 2 + 1) mod 2 ^ 64 < 2 * unat numFrames \<and>
          ((srcIndex + 1) * 2) mod 2 ^ 64 < 2 * unat numFrames \<and>
          ((srcIndex + 1) * 2 + 1) mod 2 ^ 64 < 2 * unat numFrames)) \<and>
   fst (clamp_index 1 srcIndex0 fraction0) = 2 ^ 32 - 1"
proof (intro conjI impI)
  assume n: "2 \<le> unat numFrames"
  define s where "s = fst (clamp_index numFrames srcIndex0 fraction0)"
  have s: "s \<le> unat numFrames - 2"
  proof (cases "unat (numFrames - 1) \<le> srcIndex0")
    case True
    then show ?thesis using n by (simp add: s_def clamp_index_def unat_minus_2)
  next
    case False
    then have "srcIndex0 < unat numFrames - 1" using n by (simp add: unat_minus_1)
    with False show ?thesis by (simp add: s_def clamp_index_def)
  qed
  have lt: "unat numFrames < 2 ^ 32" using unsigned_less [of numFrames] by simp
  have b: "(s + 1) * 2 + 1 < 2 * unat numFrames" using s n by arith
  have m: "k < 2 * unat numFrames \<Longrightarrow> k mod 2 ^ 64 < 2 * unat numFrames" for k
    using mod_less_eq_dividend [of k "2 ^ 64"] by linarith
  show "let srcIndex = fst (clamp_index numFrames srcIndex0 fraction0)
       in srcIndex \<le> unat numFrames - 2 \<and> srcIndex + 1 < unat numFrames \<and>
          (srcIndex * 2) mod 2 ^ 64 < 2 * unat numFrames \<and>
          (srcIndex * 2 + 1) mod 2 ^ 64 < 2 * unat numFrames \<and>
          ((srcIndex + 1) * 2) mod 2 ^ 64 < 2 * unat numFrames \<and>
          ((srcIndex + 1) * 2 + 1) mod 2 ^ 64 < 2 * unat numFrames"
    unfolding Let_def s_def [symmetric]
    using s n b by (intro conjI m) arith+
next
  show "fst (clamp_index 1 srcIndex0 fraction0) = 2 ^ 32 - 1"
    by (simp add: clamp_index_def unsigned_minus_1_eq_mask mask_eq_exp_minus_1)
qed

theorem interpolation_reads_in_range_witness:
  "(2::nat) \<le> unat (5 :: 32 word) \<and> fst (clamp_index 5 4 (Finite 0)) = 3 \<and>
   fst (clamp_index 5 4 (Finite 0)) \<le> unat (5 :: 32 word) - 2 \<and>
   ((fst (clamp_index 5 4 (Finite 0)) + 1) * 2 + 1) mod 2 ^ 64 < 2 * unat (5 :: 32 word)"
  using interpolation_reads_in_range [of 5 4 "Finite 0"]
  by (simp add: clamp_index_def)

subsection \<open>The two loops\<close>



lemma store_Some: "store xs i v = Some ys \<Longrightarrow> i < length xs \<and> ys = xs[i := v]"
  by (auto simp: store_def split: if_splits)

lemma load_Some: "load xs i = Some v \<Longrightarrow> i < length xs \<and> v = xs ! i"
  by (auto simp: load_def split: if_splits)

lemma length_resize: "length (resize n z xs) = n"
  by (simp add: resize_def)

lemma read_frame_mono:
  assumes "m_channels st = 1" "read_frame st d i = Some (l, r)"
  shows "l = r"
  using assms
  by (auto simp: read_frame_def Let_def bind_eq_Some_conv split: if_splits)

lemma convert_frames_length:
  "convert_frames st d is buf = Some buf' \<Longrightarrow> length buf' = length buf"
proof (induction "is" arbitrary: buf)
  case Nil
  then show ?case by simp
next
  case (Cons i rest)
  then show ?case
    by (auto simp: bind_eq_Some_conv dest!: store_Some)
qed

lemma convert_frames_inrange:
  "convert_frames st d is buf = Some buf' \<Longrightarrow> i \<in> set is \<Longrightarrow> (i * 2 + 1) mod 2 ^ 32 < length buf"
proof (induction "is" arbitrary: buf)
  case Nil
  then show ?case by simp
next
  case (Cons j rest)
  from Cons.prems(1) obtain l r buf1 buf2 where
    s1: "store buf ((j * 2) mod 2 ^ 32) l = Some buf1" and
    s2: "store buf1 ((j * 2 + 1) mod 2 ^ 32) r = Some buf2" and
    rest: "convert_frames st d rest buf2 = Some buf'"
    by (auto simp: bind_eq_Some_conv)
  from store_Some [OF s1] store_Some [OF s2]
  have len: "length buf2 = length buf" "(j * 2 + 1) mod 2 ^ 32 < length buf" by auto
  show ?case
  proof (cases "i = j")
    case True
    then show ?thesis using len by simp
  next
    case False
    with Cons.prems(2) have "i \<in> set rest" by simp
    from Cons.IH [OF rest this] len show ?thesis by simp
  qed
qed

lemma store_pair_keeps:
  assumes "i * 2 + 1 < length buf" "\<forall>k\<in>S. buf ! (2 * k) = buf ! (2 * k + 1)"
  shows "\<forall>k\<in>insert i S. buf[i * 2 := v, i * 2 + 1 := v] ! (2 * k) = buf[i * 2 := v, i * 2 + 1 := v] ! (2 * k + 1)"
proof
  fix k assume k: "k \<in> insert i S"
  show "buf[i * 2 := v, i * 2 + 1 := v] ! (2 * k) = buf[i * 2 := v, i * 2 + 1 := v] ! (2 * k + 1)"
  proof (cases "k = i")
    case True
    then show ?thesis using assms(1) by (simp add: nth_list_update mult.commute)
  next
    case False
    then have "2 * k \<noteq> i * 2" "2 * k \<noteq> i * 2 + 1" "2 * k + 1 \<noteq> i * 2" "2 * k + 1 \<noteq> i * 2 + 1"
      by presburger+
    with k False assms(2) show ?thesis by simp
  qed
qed

lemma convert_frames_pairs:
  assumes "m_channels st = 1"
  shows "convert_frames st d is buf = Some buf' \<Longrightarrow> \<forall>i\<in>set is. i < 2 ^ 31 \<Longrightarrow>
         \<forall>k\<in>S. buf ! (2 * k) = buf ! (2 * k + 1) \<Longrightarrow>
         \<forall>k\<in>S \<union> set is. buf' ! (2 * k) = buf' ! (2 * k + 1)"
proof (induction "is" arbitrary: buf S)
  case Nil
  then show ?case by simp
next
  case (Cons j rest)
  from Cons.prems(1) obtain l r buf1 buf2 where
    rf: "read_frame st d j = Some (l, r)" and
    s1: "store buf ((j * 2) mod 2 ^ 32) l = Some buf1" and
    s2: "store buf1 ((j * 2 + 1) mod 2 ^ 32) r = Some buf2" and
    rest: "convert_frames st d rest buf2 = Some buf'"
    by (auto simp: bind_eq_Some_conv)
  have lr: "l = r" using read_frame_mono [OF assms rf] .
  have j: "j < 2 ^ 31" using Cons.prems(2) by simp
  then have m: "(j * 2) mod 2 ^ 32 = j * 2" "(j * 2 + 1) mod 2 ^ 32 = j * 2 + 1" by simp_all
  from store_Some [OF s1] store_Some [OF s2]
  have b2: "buf2 = buf[j * 2 := r, j * 2 + 1 := r]" and len: "j * 2 + 1 < length buf"
    unfolding m lr by auto
  have inv: "\<forall>k\<in>insert j S. buf2 ! (2 * k) = buf2 ! (2 * k + 1)"
    unfolding b2 using len Cons.prems(3) by (rule store_pair_keeps)
  have "\<forall>k\<in>insert j S \<union> set rest. buf' ! (2 * k) = buf' ! (2 * k + 1)"
    using rest Cons.prems(2) inv by (intro Cons.IH) auto
  then show ?case by auto
qed

lemma no_wrap:
  fixes n H :: nat
  assumes H: "0 < H" and n: "n < 2 * H"
      and r: "\<forall>i<n. (i * 2 + 1) mod (2 * H) < (n * 2) mod (2 * H)"
  shows "n < H"
proof (rule ccontr)
  assume "\<not> n < H"
  then have nH: "H \<le> n" by simp
  define i where "i = n - H"
  have i: "i < n" "i * 2 + 1 < 2 * H" using nH n H by (auto simp: i_def)
  have "n * 2 = (n - H) * 2 + 1 * (2 * H)" using nH by (simp add: algebra_simps)
  then have "(n * 2) mod (2 * H) = ((n - H) * 2) mod (2 * H)"
    by (metis mod_mult_self1)
  also have "\<dots> = (n - H) * 2" using n nH by (intro mod_less) auto
  finally have L: "(n * 2) mod (2 * H) = i * 2" by (simp add: i_def)
  from r i(1) have "(i * 2 + 1) mod (2 * H) < (n * 2) mod (2 * H)" by blast
  with i(2) L show False by simp
qed



lemma after_convert_frames:
  assumes "convert_frames st d [0..<unat nf] (resize (unat (nf * 2)) z old) = Some buf"
  shows "unat (nf :: 32 word) < 2 ^ 31 \<and> length buf = 2 * unat nf"
proof -
  define n where "n = unat nf"
  define H :: nat where "H = 2 ^ 31"
  have HH: "(2::nat) ^ 32 = 2 * H" by (simp add: H_def)
  have "n < 2 ^ 32" using unsigned_less [of nf] by (simp add: n_def)
  then have n32: "n < 2 * H" by (simp only: HH)
  have "unat (nf * 2) = (unat nf * unat (2 :: 32 word)) mod 2 ^ LENGTH(32)"
    by (rule unat_word_ariths)
  then have len0: "unat (nf * 2) = (n * 2) mod (2 * H)"
    by (simp add: n_def HH [symmetric])
  have len: "length buf = (n * 2) mod (2 * H)"
    using convert_frames_length [OF assms] by (simp only: length_resize len0)
  have Hpos: "0 < H" by (simp add: H_def)
  have r: "\<forall>i<n. (i * 2 + 1) mod (2 * H) < (n * 2) mod (2 * H)"
  proof (intro allI impI)
    fix i assume "i < n"
    then have "i \<in> set [0..<unat nf]" by (simp add: n_def)
    from convert_frames_inrange [OF assms this]
    show "(i * 2 + 1) mod (2 * H) < (n * 2) mod (2 * H)"
      by (simp only: length_resize len0 HH)
  qed
  from Hpos n32 r have nH: "n < H" by (rule no_wrap)
  then have "(n * 2) mod (2 * H) = n * 2" by (intro mod_less) simp
  with len have "length buf = n * 2" by (simp only:)
  with nH show ?thesis by (simp add: n_def H_def)
qed

lemma mono_buffer_paired:
  assumes "m_channels st = 1"
      and "convert_frames st d [0..<unat (nf :: 32 word)] (resize (unat (nf * 2)) z old) = Some buf"
  shows "left_eq_right buf"
proof -
  from after_convert_frames [OF assms(2)]
  have n: "unat nf < 2 ^ 31" and len: "length buf = 2 * unat nf" by auto
  have "\<forall>k\<in>{} \<union> set [0..<unat nf]. buf ! (2 * k) = buf ! (2 * k + 1)"
    using assms(2) n by (intro convert_frames_pairs [OF assms(1)]) auto
  then show ?thesis unfolding left_eq_right_def len by auto
qed

lemma direct_convert_length:
  "direct_convert buf is out = Some out' \<Longrightarrow> length out' = length out"
proof (induction "is" arbitrary: out)
  case Nil
  then show ?case by simp
next
  case (Cons i rest)
  then show ?case by (auto simp: bind_eq_Some_conv dest!: store_Some)
qed

lemma direct_convert_values:
  "direct_convert buf is out = Some out' \<Longrightarrow>
   \<forall>i\<in>S. to_int16_sample (buf ! i) = Some (out ! i) \<Longrightarrow>
   \<forall>i\<in>S \<union> set is. to_int16_sample (buf ! i) = Some (out' ! i)"
proof (induction "is" arbitrary: out S)
  case Nil
  then show ?case by simp
next
  case (Cons j rest)
  from Cons.prems(1) obtain sample v out1 where
    ld: "load buf j = Some sample" and
    cv: "to_int16_sample sample = Some v" and
    st: "store out j v = Some out1" and
    rest: "direct_convert buf rest out1 = Some out'"
    by (auto simp: bind_eq_Some_conv)
  from load_Some [OF ld] store_Some [OF st]
  have f: "sample = buf ! j" "j < length out" "out1 = out[j := v]" by auto
  have "\<forall>i\<in>insert j S. to_int16_sample (buf ! i) = Some (out1 ! i)"
    using Cons.prems(2) f cv by (auto simp: nth_list_update)
  from Cons.IH [OF rest this] show ?case by auto
qed

lemma paired_direct_convert:
  assumes "left_eq_right buf" "length buf = n" "direct_convert buf [0..<n] out = Some out'"
      and "length out = n"
  shows "left_eq_right out'"
proof -
  have v: "\<forall>i\<in>{} \<union> set [0..<n]. to_int16_sample (buf ! i) = Some (out' ! i)"
    using assms(3) by (rule direct_convert_values) simp
  have len: "length out' = n" using direct_convert_length [OF assms(3)] assms(4) by simp
  show ?thesis unfolding left_eq_right_def len
  proof (intro allI impI)
    fix k assume k: "2 * k + 1 < n"
    then have "to_int16_sample (buf ! (2 * k)) = Some (out' ! (2 * k))"
      "to_int16_sample (buf ! (2 * k + 1)) = Some (out' ! (2 * k + 1))"
      using v by auto
    moreover have "buf ! (2 * k) = buf ! (2 * k + 1)"
      using assms(1,2) k by (simp add: left_eq_right_def)
    ultimately show "out' ! (2 * k) = out' ! (2 * k + 1)" by simp
  qed
qed

lemma clamp_index_bound: "fst (clamp_index nf s0 f0) < 2 ^ 32"
proof (cases "unat (nf - 1) \<le> s0")
  case True
  have "unat (nf - 2) < 2 ^ 32" using unsigned_less [of "nf - 2"] by simp
  with True show ?thesis by (simp add: clamp_index_def)
next
  case False
  have "unat (nf - 1) < 2 ^ 32" using unsigned_less [of "nf - 1"] by simp
  with False show ?thesis by (simp add: clamp_index_def)
qed

lemma interpolate_paired:
  assumes "left_eq_right buf" "s < 2 ^ 32"
      and "interpolate buf ((s * 2) mod 2 ^ 64) (((s + 1) * 2) mod 2 ^ 64) f = Some l"
      and "interpolate buf ((s * 2 + 1) mod 2 ^ 64) (((s + 1) * 2 + 1) mod 2 ^ 64) f = Some r"
  shows "l = r"
proof -
  have m: "(s * 2) mod 2 ^ 64 = 2 * s" "((s + 1) * 2) mod 2 ^ 64 = 2 * (s + 1)"
    "(s * 2 + 1) mod 2 ^ 64 = 2 * s + 1" "((s + 1) * 2 + 1) mod 2 ^ 64 = 2 * (s + 1) + 1"
    using assms(2) by simp_all
  from assms(4) obtain x' y' where
    r: "load buf (2 * s + 1) = Some x'" "load buf (2 * (s + 1) + 1) = Some y'"
    unfolding m interpolate_def by (auto simp: bind_eq_Some_conv)
  from load_Some [OF r(1)] load_Some [OF r(2)]
  have len: "2 * s + 1 < length buf" "2 * (s + 1) + 1 < length buf" by auto
  from assms(1) len have "buf ! (2 * s) = buf ! (2 * s + 1)"
    "buf ! (2 * (s + 1)) = buf ! (2 * (s + 1) + 1)"
    unfolding left_eq_right_def by blast+
  then have "load buf (2 * s) = load buf (2 * s + 1)"
    "load buf (2 * (s + 1)) = load buf (2 * (s + 1) + 1)"
    using len by (simp_all add: load_def)
  then have "interpolate buf (2 * s) (2 * (s + 1)) f = interpolate buf (2 * s + 1) (2 * (s + 1) + 1) f"
    by (simp add: interpolate_def)
  with assms(3,4) show ?thesis unfolding m by simp
qed

lemma resample_frame_paired:
  assumes "left_eq_right buf" "resample_frame nf ratio buf i = Some (left, right)"
  shows "left = right"
proof -
  define srcPos where "srcPos = fp_mul to_double (to_double (of_nat i)) ratio"
  from assms(2) obtain s0 where c: "fp_to_size_t srcPos = Some s0"
    unfolding resample_frame_def srcPos_def Let_def by (auto simp: bind_eq_Some_conv)
  define cl where "cl = clamp_index nf s0 (fp_sub to_double srcPos (to_double (of_nat s0)))"
  from assms(2) c obtain l r where
    il: "interpolate buf ((fst cl * 2) mod 2 ^ 64) (((fst cl + 1) * 2) mod 2 ^ 64) (snd cl) = Some l" and
    ir: "interpolate buf ((fst cl * 2 + 1) mod 2 ^ 64) (((fst cl + 1) * 2 + 1) mod 2 ^ 64) (snd cl) = Some r" and
    cl: "to_int16_sample l = Some left" and
    cr: "to_int16_sample r = Some right"
    unfolding resample_frame_def Let_def srcPos_def [symmetric]
    by (simp add: cl_def [symmetric] bind_eq_Some_conv) blast
  have "fst cl < 2 ^ 32" unfolding cl_def by (rule clamp_index_bound)
  from interpolate_paired [OF assms(1) this il ir] have "l = r" .
  with cl cr show ?thesis by simp
qed

lemma resample_frames_length:
  "resample_frames nf ratio buf is out = Some out' \<Longrightarrow> length out' = length out"
proof (induction "is" arbitrary: out)
  case Nil
  then show ?case by simp
next
  case (Cons i rest)
  then show ?case by (auto simp: bind_eq_Some_conv dest!: store_Some)
qed

lemma resample_frames_inrange:
  "resample_frames nf ratio buf is out = Some out' \<Longrightarrow> i \<in> set is \<Longrightarrow>
   (i * 2 + 1) mod 2 ^ 64 < length out"
proof (induction "is" arbitrary: out)
  case Nil
  then show ?case by simp
next
  case (Cons j rest)
  from Cons.prems(1) obtain left right out1 out2 where
    s1: "store out ((j * 2) mod 2 ^ 64) left = Some out1" and
    s2: "store out1 ((j * 2 + 1) mod 2 ^ 64) right = Some out2" and
    rest: "resample_frames nf ratio buf rest out2 = Some out'"
    by (auto simp: bind_eq_Some_conv)
  from store_Some [OF s1] store_Some [OF s2]
  have len: "length out2 = length out" "(j * 2 + 1) mod 2 ^ 64 < length out" by auto
  show ?case
  proof (cases "i = j")
    case True
    then show ?thesis using len by simp
  next
    case False
    with Cons.prems(2) have "i \<in> set rest" by simp
    from Cons.IH [OF rest this] len show ?thesis by simp
  qed
qed

lemma resample_frames_pairs:
  assumes "left_eq_right buf"
  shows "resample_frames nf ratio buf is out = Some out' \<Longrightarrow> \<forall>i\<in>set is. i < 2 ^ 63 \<Longrightarrow>
         \<forall>k\<in>S. out ! (2 * k) = out ! (2 * k + 1) \<Longrightarrow>
         \<forall>k\<in>S \<union> set is. out' ! (2 * k) = out' ! (2 * k + 1)"
proof (induction "is" arbitrary: out S)
  case Nil
  then show ?case by simp
next
  case (Cons j rest)
  from Cons.prems(1) obtain left right out1 out2 where
    rf: "resample_frame nf ratio buf j = Some (left, right)" and
    s1: "store out ((j * 2) mod 2 ^ 64) left = Some out1" and
    s2: "store out1 ((j * 2 + 1) mod 2 ^ 64) right = Some out2" and
    rest: "resample_frames nf ratio buf rest out2 = Some out'"
    by (auto simp: bind_eq_Some_conv)
  have lr: "left = right" using resample_frame_paired [OF assms rf] .
  have j: "j < 2 ^ 63" using Cons.prems(2) by simp
  then have m: "(j * 2) mod 2 ^ 64 = j * 2" "(j * 2 + 1) mod 2 ^ 64 = j * 2 + 1" by simp_all
  from store_Some [OF s1] store_Some [OF s2]
  have b2: "out2 = out[j * 2 := right, j * 2 + 1 := right]" and len: "j * 2 + 1 < length out"
    unfolding m lr by auto
  have inv: "\<forall>k\<in>insert j S. out2 ! (2 * k) = out2 ! (2 * k + 1)"
    unfolding b2 using len Cons.prems(3) by (rule store_pair_keeps)
  have "\<forall>k\<in>insert j S \<union> set rest. out' ! (2 * k) = out' ! (2 * k + 1)"
    using rest Cons.prems(2) inv by (intro Cons.IH) auto
  then show ?case by auto
qed

lemma fp_to_size_t_bound: "fp_to_size_t v = Some k \<Longrightarrow> k < 2 ^ 64"
  by (cases v) (auto simp: Let_def split: if_splits)

lemma after_resample_frames:
  assumes "resample_frames nf ratio buf [0..<k] (resize ((k * 2) mod 2 ^ 64) z old) = Some out"
      and "k < 2 ^ 64"
  shows "k < 2 ^ 63 \<and> length out = 2 * k"
proof -
  define H :: nat where "H = 2 ^ 63"
  have HH: "(2::nat) ^ 64 = 2 * H" by (simp add: H_def)
  have k64: "k < 2 * H" using assms(2) by (simp only: HH)
  have len: "length out = (k * 2) mod (2 * H)"
    using resample_frames_length [OF assms(1)] by (simp only: length_resize HH)
  have Hpos: "0 < H" by (simp add: H_def)
  have r: "\<forall>i<k. (i * 2 + 1) mod (2 * H) < (k * 2) mod (2 * H)"
  proof (intro allI impI)
    fix i assume "i < k"
    then have "i \<in> set [0..<k]" by simp
    from resample_frames_inrange [OF assms(1) this]
    show "(i * 2 + 1) mod (2 * H) < (k * 2) mod (2 * H)"
      by (simp only: length_resize HH)
  qed
  from Hpos k64 r have kH: "k < H" by (rule no_wrap)
  then have "(k * 2) mod (2 * H) = k * 2" by (intro mod_less) simp
  with len have "length out = k * 2" by (simp only:)
  with kH show ?thesis by (simp add: H_def)
qed



subsection \<open>Mono input\<close>

lemma NormalizeAudio_Some:
  assumes "NormalizeAudio st d nf = Some st'"
  shows "\<exists>buf k out.
    convert_frames st d [0..<unat nf]
       (resize (unat (nf * 2)) (Finite 0) (m_resampleBuffer st)) = Some buf \<and>
    normalize_outputFrames (m_sampleRate st) nf = Some k \<and>
    (m_sampleRate st = 48000 \<longrightarrow>
       direct_convert buf [0..<(k * 2) mod 2 ^ 64]
         (resize ((k * 2) mod 2 ^ 64) 0 (m_outputBuffer st)) = Some out) \<and>
    (m_sampleRate st \<noteq> 48000 \<longrightarrow>
       (\<exists>ratio. resample_frames nf ratio buf [0..<k]
         (resize ((k * 2) mod 2 ^ 64) 0 (m_outputBuffer st)) = Some out)) \<and>
    st' = st\<lparr>m_resampleBuffer := buf, m_outputBuffer := out\<rparr>"
proof -
  from assms obtain buf where
    1: "convert_frames st d [0..<unat nf]
         (resize (unat (nf * 2)) (Finite 0) (m_resampleBuffer st)) = Some buf"
    unfolding NormalizeAudio_def Let_def by (cases "convert_frames st d [0..<unat nf]
         (resize (unat (nf * 2)) (Finite 0) (m_resampleBuffer st))") simp_all
  from assms 1 obtain k where
    2: "normalize_outputFrames (m_sampleRate st) nf = Some k"
    unfolding NormalizeAudio_def Let_def
    by (cases "normalize_outputFrames (m_sampleRate st) nf") simp_all
  define body where "body =
     (if m_sampleRate st = 48000
      then direct_convert buf [0..<(k * 2) mod 2 ^ 64]
             (resize ((k * 2) mod 2 ^ 64) 0 (m_outputBuffer st))
      else resample_frames nf
             (fp_div to_double (to_double (of_nat (unat (nf - 1))))
                (to_double (of_nat ((k + 2 ^ 64 - 1) mod 2 ^ 64))))
             buf [0..<k] (resize ((k * 2) mod 2 ^ 64) 0 (m_outputBuffer st)))"
  have na: "NormalizeAudio st d nf =
      Option.bind body (\<lambda>out. Some (st\<lparr>m_resampleBuffer := buf, m_outputBuffer := out\<rparr>))"
    unfolding NormalizeAudio_def Let_def body_def 1 2 by simp
  from assms obtain out where
    3: "body = Some out" and 4: "st' = st\<lparr>m_resampleBuffer := buf, m_outputBuffer := out\<rparr>"
    unfolding na by (cases body) simp_all
  show ?thesis
    using 1 2 3 4 unfolding body_def by (intro exI [of _ buf] exI [of _ k] exI [of _ out]) auto
qed

text \<open>
  Claim C8. For a mono input of any sample format and any native rate, every output frame
  that audio normalisation produces has its left sample equal to its right sample.
\<close>

theorem mono_left_equals_right:
  assumes "m_channels st = 1" "NormalizeAudio st inputData numFrames = Some st'"
  shows "left_eq_right (m_outputBuffer st')"
proof -
  from assms(2) obtain buf k out where
    cf: "convert_frames st inputData [0..<unat numFrames]
           (resize (unat (numFrames * 2)) (Finite 0) (m_resampleBuffer st)) = Some buf" and
    k: "normalize_outputFrames (m_sampleRate st) numFrames = Some k" and
    direct: "m_sampleRate st = 48000 \<Longrightarrow>
       direct_convert buf [0..<(k * 2) mod 2 ^ 64]
         (resize ((k * 2) mod 2 ^ 64) 0 (m_outputBuffer st)) = Some out" and
    resample: "m_sampleRate st \<noteq> 48000 \<Longrightarrow>
       \<exists>ratio. resample_frames numFrames ratio buf [0..<k]
         (resize ((k * 2) mod 2 ^ 64) 0 (m_outputBuffer st)) = Some out" and
    st': "st' = st\<lparr>m_resampleBuffer := buf, m_outputBuffer := out\<rparr>"
    using NormalizeAudio_Some [OF assms(2)] by blast
  have pb: "left_eq_right buf" using assms(1) cf by (rule mono_buffer_paired)
  from after_convert_frames [OF cf]
  have n: "unat numFrames < 2 ^ 31" and lenb: "length buf = 2 * unat numFrames" by auto
  have "left_eq_right out"
  proof (cases "m_sampleRate st = 48000")
    case True
    with k have kn: "k = unat numFrames" by (simp add: normalize_outputFrames_def)
    have "k * 2 < 2 ^ 64" using n unfolding kn by simp
    then have m: "(k * 2) mod 2 ^ 64 = 2 * unat numFrames" unfolding kn by simp
    from direct [OF True]
    have dc: "direct_convert buf [0..<2 * unat numFrames]
                (resize (2 * unat numFrames) 0 (m_outputBuffer st)) = Some out"
      unfolding m .
    show ?thesis
      by (rule paired_direct_convert [OF pb lenb dc]) (simp add: length_resize)
  next
    case False
    from resample [OF False] obtain ratio where
      rs: "resample_frames numFrames ratio buf [0..<k]
             (resize ((k * 2) mod 2 ^ 64) 0 (m_outputBuffer st)) = Some out" by blast
    have k64: "k < 2 ^ 64"
      using k False fp_to_size_t_bound by (simp add: normalize_outputFrames_def Let_def)
    from after_resample_frames [OF rs k64]
    have k63: "k < 2 ^ 63" and leno: "length out = 2 * k" by auto
    have "\<forall>j\<in>{} \<union> set [0..<k]. out ! (2 * j) = out ! (2 * j + 1)"
      using rs k63 by (intro resample_frames_pairs [OF pb]) auto
    then show ?thesis unfolding left_eq_right_def leno by auto
  qed
  then show ?thesis by (simp add: st')
qed


subsection \<open>Evaluation of the example\<close>

lemma list_update_Cons_numeral:
  "(x # xs)[numeral v := y] = x # xs[numeral v - 1 := y]"
  by (simp add: numeral_eq_Suc)

lemma replicate_numeral: "replicate (numeral k) x = x # replicate (numeral k - 1) x"
  by (simp add: numeral_eq_Suc)

lemma upt_0_3: "[0..<3] = [0, 1, 2]"
  by (simp add: upt_rec)

lemma upt_0_5: "[0..<5] = [0, 1, 2, 3, 4]"
  by (simp add: upt_rec)

lemma double_exact:
  "to_double (3 / 4) = Finite (3 / 4)" "to_double (15 / 4) = Finite (15 / 4)"
  "to_double (1 / 2) = Finite (1 / 2)" "to_double (- (1 / 2)) = Finite (- (1 / 2))"
  "to_double (1 / 4) = Finite (1 / 4)"
  using to_double_dyadic [of 3 2] to_double_dyadic [of 15 2] to_double_dyadic [of 1 1]
    to_double_dyadic [of "- 1" 1] to_double_dyadic [of 1 2]
  by simp_all

lemma float_exact:
  "to_float (1 / 2) = Finite (1 / 2)" "to_float (- (1 / 2)) = Finite (- (1 / 2))"
  "to_float (1 / 4) = Finite (1 / 4)" "to_float (32767 / 2) = Finite (32767 / 2)"
  "to_float (- (32767 / 2)) = Finite (- (32767 / 2))" "to_float (32767 / 4) = Finite (32767 / 4)"
  using to_float_dyadic [of 1 1] to_float_dyadic [of "- 1" 1] to_float_dyadic [of 1 2]
    to_float_dyadic [of 32767 1] to_float_dyadic [of "- 32767" 1] to_float_dyadic [of 32767 2]
  by simp_all

lemmas fp_eval = to_double_0 to_double_1 to_float_0 to_float_1 to_double_numeral
  to_double_neg_numeral to_float_numeral to_float_neg_numeral double_exact float_exact
  trunc_rat_def rat_floor_numeral_div rat_ceiling_neg_numeral_div

lemma example_frame_count: "normalize_outputFrames 64000 5 = Some 3"
  by (simp add: normalize_outputFrames_def fp_eval)

lemma example_read_frames:
  "map (read_frame st64 data5) [0, 1, 2, 3, 4] =
     [Some (Finite (1 / 2), Finite (1 / 2)), Some (Finite 0, Finite 0),
      Some (Finite (- (1 / 2)), Finite (- (1 / 2))), Some (Finite 0, Finite 0),
      Some (Finite (1 / 4), Finite (1 / 4))]"
  by (simp add: read_frame_def st64_def data5_def c_div_def read_u16_def load_def
        int_sample_16 Let_def)

lemma example_convert_frames:
  "convert_frames st64 data5 [0..<unat (5 :: 32 word)]
     (resize (unat (5 * 2 :: 32 word)) (Finite 0) []) = Some (m_resampleBuffer st64')"
  using example_read_frames
  by (simp add: st64'_def store_def resize_def list_update_Cons_numeral replicate_numeral upt_0_5)

lemma example_resample_frames:
  "resample_frames 5 (Finite 2) (m_resampleBuffer st64') [0..<3] (resize 6 0 []) =
     Some (m_outputBuffer st64')"
  by (simp add: st64'_def upt_0_3 resize_def list_update_Cons_numeral replicate_numeral
        store_def load_def resample_frame_def clamp_index_def interpolate_def fp_sub_def
        to_int16_sample_def fp_clamp_def fp_eval)

lemma example_NormalizeAudio: "NormalizeAudio st64 data5 5 = Some st64'"
proof -
  have 1: "m_sampleRate st64 = 64000" "m_resampleBuffer st64 = []" "m_outputBuffer st64 = []"
    by (simp_all add: st64_def)
  have 2: "st64\<lparr>m_resampleBuffer := m_resampleBuffer st64', m_outputBuffer := m_outputBuffer st64'\<rparr> = st64'"
    by (simp add: st64'_def)
  show ?thesis
    unfolding NormalizeAudio_def 1
    using example_convert_frames example_resample_frames 2
    by (simp add: example_frame_count fp_eval)
qed

theorem mono_left_equals_right_witness:
  "m_channels st64 = 1 \<and> NormalizeAudio st64 data5 5 = Some st64' \<and>
   m_outputBuffer st64' = [16383, 16383, - 16383, - 16383, 8191, 8191] \<and>
   left_eq_right (m_outputBuffer st64')"
  using mono_left_equals_right [of st64 data5 5 st64'] example_NormalizeAudio
  by (simp add: st64_def st64'_def)

subsection \<open>Frame counts\<close>

lemma to_double_12_11:
  "to_double (12 / 11) = Finite (1228254443828317 / 1125899906842624)"
  unfolding to_double_def
  by (rule round_fp_nearest [where e = "- 52" and m = 4913017775313268])
     (simp_all add: pow2_def)

lemma to_double_55q:
  "to_double (67553994410557435 / 1125899906842624) =
   Finite (8444249301319679 / 140737488355328)"
  unfolding to_double_def
  by (rule round_fp_nearest [where e = "- 47" and m = 8444249301319679])
     (simp_all add: pow2_def)

text \<open>
  Claim C3. The silent-buffer path and the real-data path are meant to give the same
  number of output frames, but they evaluate different \<^verbatim>\<open>double\<close> expressions:
  \<open>numFrames * 48000.0 / rate\<close> against \<open>numFrames * (48000.0 / rate)\<close>. For 55 frames at
  44,000 Hz the exact value is 60; the first expression gives 60, the second one rounds
  \<open>48000 / 44000\<close> down, the product is just below 60, and its truncation is 59.
\<close>

theorem silent_and_real_counts_differ:
  "normalize_outputFrames 44000 55 = Some 59 \<and> silent_outputFrames 44000 55 = Some 60"
  by (simp add: normalize_outputFrames_def silent_outputFrames_def to_double_numeral
        to_double_12_11 to_double_55q trunc_rat_def rat_floor_numeral_div)



lemma fp_to_size_t_Some:
  "fp_to_size_t v = Some k \<Longrightarrow> \<exists>d. v = Finite d \<and> k = nat (trunc_rat d)"
  by (cases v) (auto simp: Let_def split: if_splits)

lemma fp_mul_Finite_left:
  "fp_mul rnd (Finite a) v = Finite d \<Longrightarrow> \<exists>q. v = Finite q \<and> rnd (a * q) = Finite d"
  by (cases v) (auto split: if_splits)

lemma normalize_outputFrames_formula:
  assumes "0 < rate" "rate < 2 ^ 31" "rate \<noteq> 48000"
      and "normalize_outputFrames rate nf = Some k"
  shows "\<exists>q d. to_double (48000 / of_int rate) = Finite q \<and>
               to_double (of_nat (unat nf) * q) = Finite d \<and> k = nat (trunc_rat d)"
proof -
  have r: "to_double (of_int rate) = Finite (of_int rate)"
    using assms(1,2) by (intro to_double_of_int) simp
  have "unat nf < 2 ^ 32" using unsigned_less [of nf] by simp
  then have n: "to_double (of_nat (unat nf)) = Finite (of_nat (unat nf))"
    by (intro to_double_of_nat) simp
  have dv: "fp_div to_double (Finite 48000) (Finite (of_int rate)) = to_double (48000 / of_int rate)"
    using assms(1) by simp
  from assms(3,4) have
    "fp_to_size_t (fp_mul to_double (Finite (of_nat (unat nf))) (to_double (48000 / of_int rate)))
       = Some k"
    unfolding normalize_outputFrames_def Let_def r n dv by simp
  from fp_to_size_t_Some [OF this] obtain d where
    d: "fp_mul to_double (Finite (of_nat (unat nf))) (to_double (48000 / of_int rate)) = Finite d"
    and k: "k = nat (trunc_rat d)" by blast
  from fp_mul_Finite_left [OF d] obtain q where
    "to_double (48000 / of_int rate) = Finite q" "to_double (of_nat (unat nf) * q) = Finite d"
    by blast
  with k show ?thesis by blast
qed

text \<open>
  Claim C2, as amended. For a native rate different from 48,000 Hz (a positive \<^verbatim>\<open>int\<close>),
  the number of output frames that audio normalisation produces is the \<^verbatim>\<open>double\<close> product
  \<open>numFrames * (48000.0 / rate)\<close>, each of the two operations correctly rounded, truncated
  toward zero by the conversion to \<^verbatim>\<open>size_t\<close>. It is not the nearest integer of the ratio.
\<close>

theorem resampled_frame_count_truncates:
  assumes "0 < m_sampleRate st" "m_sampleRate st < 2 ^ 31" "m_sampleRate st \<noteq> 48000"
      and "NormalizeAudio st inputData numFrames = Some st'"
  shows "\<exists>q d. to_double (48000 / of_int (m_sampleRate st)) = Finite q \<and>
               to_double (of_nat (unat numFrames) * q) = Finite d \<and>
               length (m_outputBuffer st') = 2 * nat (trunc_rat d)"
proof -
  from NormalizeAudio_Some [OF assms(4)] assms(3) obtain buf k out ratio where
    k: "normalize_outputFrames (m_sampleRate st) numFrames = Some k" and
    rs: "resample_frames numFrames ratio buf [0..<k]
           (resize ((k * 2) mod 2 ^ 64) 0 (m_outputBuffer st)) = Some out" and
    st': "st' = st\<lparr>m_resampleBuffer := buf, m_outputBuffer := out\<rparr>"
    by blast
  have k64: "k < 2 ^ 64"
    using k assms(3) fp_to_size_t_bound by (simp add: normalize_outputFrames_def Let_def)
  from after_resample_frames [OF rs k64] have len: "length (m_outputBuffer st') = 2 * k"
    by (simp add: st')
  from normalize_outputFrames_formula [OF assms(1-3) k] show ?thesis
    unfolding len by blast
qed

theorem resampled_frame_count_truncates_witness:
  "0 < m_sampleRate st64 \<and> m_sampleRate st64 < 2 ^ 31 \<and> m_sampleRate st64 \<noteq> 48000 \<and>
   NormalizeAudio st64 data5 5 = Some st64' \<and>
   to_double (48000 / of_int (m_sampleRate st64)) = Finite (3 / 4) \<and>
   to_double (of_nat (unat (5 :: 32 word)) * (3 / 4)) = Finite (15 / 4) \<and>
   length (m_outputBuffer st64') = 2 * nat (trunc_rat (15 / 4)) \<and>
   (\<exists>q d. to_double (48000 / of_int (m_sampleRate st64)) = Finite q \<and>
          to_double (of_nat (unat (5 :: 32 word)) * q) = Finite d \<and>
          length (m_outputBuffer st64') = 2 * nat (trunc_rat d))"
  using resampled_frame_count_truncates [of st64 data5 5 st64'] example_NormalizeAudio
  by (simp add: st64_def st64'_def fp_eval)

text \<open>
  Claim C2 as stated fails: five native frames at 64,000 Hz give three output frames, and
  the nearest integer of \<open>5 * 48000 / 64000 = 3.75\<close> is four.
\<close>

theorem frame_count_not_rounded:
  "NormalizeAudio st64 data5 5 = Some st64' \<and> m_sampleRate st64 \<noteq> 48000 \<and>
   int (length (m_outputBuffer st64') div 2) = 3 \<and>
   round (of_nat (unat (5 :: 32 word)) * 48000 / of_int (m_sampleRate st64) :: rat) = 4"
  using example_NormalizeAudio
  by (simp add: st64_def st64'_def round_def rat_floor_numeral_div)

subsection \<open>Packets\<close>

lemma even_wrap: "even ((k * 2) mod 2 ^ 64 :: nat)"
  by (intro dvd_mod) simp_all

lemma NormalizeAudio_even:
  assumes "NormalizeAudio st d nf = Some st'"
  shows "even (length (m_outputBuffer st'))"
proof -
  from NormalizeAudio_Some [OF assms] obtain buf k out where
    d: "m_sampleRate st = 48000 \<longrightarrow>
       direct_convert buf [0..<(k * 2) mod 2 ^ 64]
         (resize ((k * 2) mod 2 ^ 64) 0 (m_outputBuffer st)) = Some out" and
    r: "m_sampleRate st \<noteq> 48000 \<longrightarrow>
       (\<exists>ratio. resample_frames nf ratio buf [0..<k]
         (resize ((k * 2) mod 2 ^ 64) 0 (m_outputBuffer st)) = Some out)" and
    st': "st' = st\<lparr>m_resampleBuffer := buf, m_outputBuffer := out\<rparr>"
    by blast
  have "length out = (k * 2) mod 2 ^ 64"
  proof (cases "m_sampleRate st = 48000")
    case True
    with d direct_convert_length show ?thesis by (fastforce simp: length_resize)
  next
    case False
    with r resample_frames_length show ?thesis by (fastforce simp: length_resize)
  qed
  moreover have "even ((k * 2) mod 2 ^ 64)" by (rule even_wrap)
  ultimately show ?thesis by (simp add: st')
qed

lemma capture_packet_buffer:
  assumes "capture_packet sizeof_header data numFrames silent timestamp st = Some (pkt, st')"
  shows "even (length (m_outputBuffer st'))"
proof (cases silent)
  case True
  with assms obtain k where "st' = st\<lparr>m_outputBuffer := replicate ((k * 2) mod 2 ^ 64) 0\<rparr>"
    unfolding capture_packet_def by (auto simp: bind_eq_Some_conv)
  then show ?thesis using even_wrap [of k] by simp
next
  case False
  with assms have "NormalizeAudio st data numFrames = Some st'"
    unfolding capture_packet_def by (auto simp: bind_eq_Some_conv)
  then show ?thesis by (rule NormalizeAudio_even)
qed

text \<open>
  Claim C10. Every packet handed to the audio callback is self-consistent: its size in bytes
  is the size of the header plus \<open>frameCount * 2 * 2\<close>, the \<open>frameCount\<close> of the header is
  half the number of samples of the payload, and the \<open>timestampMs\<close> of the header is the
  timestamp passed to the callback. The frame count is a \<^verbatim>\<open>uint32_t\<close>: the property is
  stated for packets of fewer than \<open>2\<^sup>3\<^sup>2\<close> frames.
\<close>

theorem audio_packet_self_consistent:
  assumes "capture_packet sizeof_header data numFrames silent timestamp st = Some (Some pkt, st')"
      and "length (pkt_samples pkt) div 2 < 2 ^ 32"
  shows "pkt_size pkt = sizeof_header + unat (frameCount (pkt_header pkt)) * 2 * 2 \<and>
         unat (frameCount (pkt_header pkt)) = length (pkt_samples pkt) div 2 \<and>
         timestampMs (pkt_header pkt) = pkt_timestamp pkt \<and> pkt_timestamp pkt = timestamp"
proof -
  have ev: "even (length (m_outputBuffer st'))"
    using assms(1) by (rule capture_packet_buffer)
  from assms(1) have pkt:
    "pkt = \<lparr>pkt_header = \<lparr>frameCount = of_nat (length (m_outputBuffer st') div 2),
                            timestampMs = timestamp\<rparr>,
            pkt_samples = m_outputBuffer st',
            pkt_size = sizeof_header + length (m_outputBuffer st') * 2,
            pkt_timestamp = timestamp\<rparr>"
    unfolding capture_packet_def by (auto simp: bind_eq_Some_conv split: if_splits)
  have s: "pkt_samples pkt = m_outputBuffer st'" by (simp add: pkt)
  have fc: "unat (frameCount (pkt_header pkt)) = length (m_outputBuffer st') div 2"
    using assms(2) unfolding s by (simp add: pkt of_nat_inverse)
  have "length (m_outputBuffer st') * 2 = length (m_outputBuffer st') div 2 * 2 * 2"
    using ev by auto
  then show ?thesis unfolding fc s by (simp add: pkt)
qed

theorem audio_packet_self_consistent_witness:
  "(\<exists>pkt. capture_packet 16 data5 5 False 1234 st64 = Some (Some pkt, st64') \<and>
      length (pkt_samples pkt) div 2 < 2 ^ 32 \<and>
      pkt_size pkt = 28 \<and> frameCount (pkt_header pkt) = 3 \<and>
      pkt_samples pkt = [16383, 16383, - 16383, - 16383, 8191, 8191] \<and>
      pkt_size pkt = 16 + unat (frameCount (pkt_header pkt)) * 2 * 2 \<and>
      unat (frameCount (pkt_header pkt)) = length (pkt_samples pkt) div 2 \<and>
      timestampMs (pkt_header pkt) = pkt_timestamp pkt \<and> pkt_timestamp pkt = 1234)"
proof -
  define pkt where "pkt = \<lparr>pkt_header = \<lparr>frameCount = 3, timestampMs = 1234\<rparr>,
     pkt_samples = [16383, 16383, - 16383, - 16383, 8191, 8191 :: 16 word],
     pkt_size = 28, pkt_timestamp = 1234\<rparr>"
  have c: "capture_packet 16 data5 5 False 1234 st64 = Some (Some pkt, st64')"
    unfolding capture_packet_def using example_NormalizeAudio
    by (simp add: pkt_def st64'_def st64_def)
  have l: "length (pkt_samples pkt) div 2 < 2 ^ 32" by (simp add: pkt_def)
  from audio_packet_self_consistent [OF c l] c l show ?thesis
    by (intro exI [of _ pkt]) (simp add: pkt_def)
qed

section \<open>Colour conversion\<close>


lemma nv12_size_exact:
  assumes "0 \<le> w" "w < 2 ^ 31" "0 \<le> h" "h < 2 ^ 31"
  shows "nv12_size w h = nat (w * h * 3 div 2)"
proof -
  have w: "nat (w mod 2 ^ 64) = nat w" using assms(1,2) by simp
  have h: "nat (h mod 2 ^ 64) = nat h" using assms(3,4) by simp
  have "w * h \<le> (2 ^ 31 - 1) * (2 ^ 31 - 1)"
    using assms by (intro mult_mono) auto
  then have wh: "w * h < 2 ^ 62" by simp
  have nn: "nat w * nat h = nat (w * h)" using assms(1,3) by (simp add: nat_mult_distrib)
  have p0: "0 \<le> w * h" using assms(1,3) by simp
  have 1: "(nat (w * h)) mod 2 ^ 64 = nat (w * h)" using wh p0 by simp
  have 2: "(nat (w * h) * 3) mod 2 ^ 64 = nat (w * h) * 3" using wh p0 by simp
  have 3: "nat (w * h) * 3 = nat (w * h * 3)" using p0 by (simp add: nat_mult_distrib)
  have 4: "nat (w * h * 3) div 2 = nat (w * h * 3 div 2)" using p0 by (simp add: nat_div_distrib)
  have "nv12_size w h = ((nat (w * h) mod 2 ^ 64 * 3) mod 2 ^ 64) div 2"
    unfolding nv12_size_def w h nn ..
  also have "\<dots> = (nat (w * h) * 3) div 2" unfolding 1 2 ..
  also have "\<dots> = nat (w * h * 3 div 2)" unfolding 3 4 ..
  finally show ?thesis .
qed

lemma memcpy_into_length: "memcpy_into dst doff src soff n = Some dst' \<Longrightarrow> length dst' = length dst"
  by (auto simp: memcpy_into_def split: if_splits)

lemma copy_rows_length:
  "copy_rows width src srcBase pitch dstBase ys buf = Some buf' \<Longrightarrow> length buf' = length buf"
proof (induction ys arbitrary: buf)
  case Nil
  then show ?case by simp
next
  case (Cons y rest)
  then show ?case by (auto simp: bind_eq_Some_conv dest!: memcpy_into_length)
qed

text \<open>What \<^verbatim>\<open>Initialize\<close> fixes and \<^verbatim>\<open>Convert\<close> keeps.\<close>

lemma Initialize_sized:
  assumes "GpuColorConverter_Initialize pok tok w h c0 = (ok, c)"
  shows "m_nv12Size c = nv12_size w h \<and> length (m_nv12Buffer c) = nv12_size w h"
  using assms
  by (auto simp: GpuColorConverter_Initialize_def Let_def length_resize split: if_splits)

lemma Convert_sized:
  assumes "Convert cvt c = Inr (p, c1)"
  shows "m_nv12Size c1 = m_nv12Size c \<and> length (m_nv12Buffer c1) = length (m_nv12Buffer c) \<and>
         (\<forall>buf. p = Ptr buf \<longrightarrow> buf = m_nv12Buffer c1)"
proof -
  define rows where "rows =
     do { buf1 \<leftarrow> copy_rows (GpuColorConverter.m_width c) (os_pData cvt) 0 (os_RowPitch cvt) 0
                    [0..<nat (GpuColorConverter.m_height c)] (m_nv12Buffer c);
          copy_rows (GpuColorConverter.m_width c) (os_pData cvt)
            ((os_RowPitch cvt * nat (GpuColorConverter.m_height c mod 2 ^ 32)) mod 2 ^ 32)
            (os_RowPitch cvt) (GpuColorConverter.m_width c * GpuColorConverter.m_height c)
            [0..<nat (c_div (GpuColorConverter.m_height c) 2)] buf1 }"
  have len: "rows = Some buf \<Longrightarrow> length buf = length (m_nv12Buffer c)" for buf
    unfolding rows_def by (auto simp: bind_eq_Some_conv dest!: copy_rows_length)
  from assms show ?thesis
    unfolding Convert_def Let_def rows_def [symmetric]
    by (auto split: if_splits option.splits dest: len)
qed

lemma deliver_frame_sized:
  assumes "deliver_frame cvt ts cb (Some c) = Inr (fr, conv1)"
  shows "\<exists>c1. conv1 = Some c1 \<and> m_nv12Size c1 = m_nv12Size c \<and>
           length (m_nv12Buffer c1) = length (m_nv12Buffer c) \<and>
           (\<forall>f. fr = Some f \<longrightarrow> frame_data f = m_nv12Buffer c1 \<and> frame_size f = m_nv12Size c1)"
proof (cases "Convert cvt c")
  case (Inl f)
  with assms show ?thesis by (simp add: deliver_frame_def)
next
  case (Inr r)
  obtain p c1 where r: "r = (p, c1)" by (cases r)
  from Convert_sized [OF Inr [unfolded r]] assms Inr r show ?thesis
    by (cases p) (auto simp: deliver_frame_def split: if_splits)
qed

lemma deliver_all_sized:
  "deliver_all ticks cb (Some c) = Inr (frames, conv') \<Longrightarrow>
   length (m_nv12Buffer c) = m_nv12Size c \<Longrightarrow>
   \<forall>f\<in>set frames. length (frame_data f) = m_nv12Size c \<and> frame_size f = m_nv12Size c"
proof (induction ticks arbitrary: c frames)
  case Nil
  then show ?case by simp
next
  case (Cons tick rest)
  obtain cvt ts where tick: "tick = (cvt, ts)" by (cases tick)
  from Cons.prems(1) obtain fr conv1 frames1 where
    d: "deliver_frame cvt ts cb (Some c) = Inr (fr, conv1)" and
    r: "deliver_all rest cb conv1 = Inr (frames1, conv')" and
    f: "frames = (case fr of None \<Rightarrow> [] | Some f \<Rightarrow> [f]) @ frames1"
    unfolding tick by (auto split: sum.splits prod.splits)
  from deliver_frame_sized [OF d] obtain c1 where
    c1: "conv1 = Some c1" "m_nv12Size c1 = m_nv12Size c"
        "length (m_nv12Buffer c1) = length (m_nv12Buffer c)"
        "\<forall>f. fr = Some f \<longrightarrow> frame_data f = m_nv12Buffer c1 \<and> frame_size f = m_nv12Size c1"
    by blast
  have "\<forall>f\<in>set frames1. length (frame_data f) = m_nv12Size c1 \<and> frame_size f = m_nv12Size c1"
    using r c1 Cons.prems(2) by (intro Cons.IH) auto
  with c1 Cons.prems(2) show ?case unfolding f by (auto split: option.splits)
qed


lemma copy_rows_fits:
  assumes "0 \<le> width" "width < 2 ^ 64"
  shows "\<forall>y\<in>set ys. 0 \<le> dstBase + int y * width \<and>
            nat (dstBase + int y * width) + nat width \<le> length buf \<Longrightarrow>
         \<exists>buf'. copy_rows width src srcBase pitch dstBase ys buf = Some buf'"
proof (induction ys arbitrary: buf)
  case Nil
  then show ?case by simp
next
  case (Cons y rest)
  have w: "nat (width mod 2 ^ 64) = nat width" using assms by simp
  from Cons.prems obtain buf1 where
    m: "memcpy_into buf (dstBase + int y * width) src (srcBase + (y * pitch) mod 2 ^ 32)
          (nat (width mod 2 ^ 64)) = Some buf1"
    unfolding w by (auto simp: memcpy_into_def)
  from memcpy_into_length [OF m] Cons.prems
  have "\<forall>y\<in>set rest. 0 \<le> dstBase + int y * width \<and>
            nat (dstBase + int y * width) + nat width \<le> length buf1" by simp
  from Cons.IH [OF this] m show ?case by simp
qed

lemma half_le: "2 * (a::int) \<le> b \<Longrightarrow> a \<le> b div 2"
  by presburger

lemma nat_add_le: "0 \<le> (x::int) \<Longrightarrow> 0 \<le> w \<Longrightarrow> x + w \<le> z \<Longrightarrow> nat x + nat w \<le> nat z"
  by arith

lemma plane_bounds:
  fixes w h :: int
  assumes "0 \<le> w" "0 \<le> h"
  shows "y < nat h \<Longrightarrow> int y * w + w \<le> w * h"
    and "w * h \<le> w * h * 3 div 2"
    and "y < nat (h div 2) \<Longrightarrow> w * h + int y * w + w \<le> w * h * 3 div 2"
proof -
  have p: "0 \<le> w * h" using assms by simp
  have "2 * (w * h) \<le> w * h * 3" using p by linarith
  then show "w * h \<le> w * h * 3 div 2" by (rule half_le)
  {
    assume "y < nat h"
    then have "int y + 1 \<le> h" by linarith
    then have "(int y + 1) * w \<le> h * w" using assms(1) by (rule mult_right_mono)
    then show "int y * w + w \<le> w * h" by (simp add: algebra_simps)
  }
  {
    assume "y < nat (h div 2)"
    then have "int y + 1 \<le> h div 2" by linarith
    then have "(int y + 1) * w \<le> (h div 2) * w" using assms(1) by (rule mult_right_mono)
    moreover have "2 * (h div 2) \<le> h" by simp
    then have "2 * (h div 2) * w \<le> h * w" using assms(1) by (rule mult_right_mono)
    ultimately have "2 * (w * h + int y * w + w) \<le> w * h * 3" by (simp add: algebra_simps)
    then show "w * h + int y * w + w \<le> w * h * 3 div 2" by (rule half_le)
  }
qed

lemma Convert_no_overrun:
  assumes "0 \<le> GpuColorConverter.m_width c" "GpuColorConverter.m_width c < 2 ^ 31"
      and "0 \<le> GpuColorConverter.m_height c"
      and "length (m_nv12Buffer c) =
           nat (GpuColorConverter.m_width c * GpuColorConverter.m_height c * 3 div 2)"
  shows "Convert cvt c \<noteq> Inl BufferOverrun"
proof -
  define w where "w = GpuColorConverter.m_width c"
  define h where "h = GpuColorConverter.m_height c"
  have w: "0 \<le> w" "w < 2 ^ 64" and h: "0 \<le> h" using assms(1-3) by (auto simp: w_def h_def)
  have len: "length (m_nv12Buffer c) = nat (w * h * 3 div 2)" using assms(4) by (simp add: w_def h_def)
  have "\<forall>y\<in>set [0..<nat h]. 0 \<le> 0 + int y * w \<and>
            nat (0 + int y * w) + nat w \<le> length (m_nv12Buffer c)"
  proof
    fix y assume "y \<in> set [0..<nat h]"
    then have y: "y < nat h" by simp
    from plane_bounds(1) [OF w(1) h y] plane_bounds(2) [OF w(1) h]
    have "int y * w + w \<le> w * h * 3 div 2" by linarith
    moreover have "0 \<le> int y * w" using w(1) by simp
    ultimately show "0 \<le> 0 + int y * w \<and> nat (0 + int y * w) + nat w \<le> length (m_nv12Buffer c)"
      unfolding len using w(1) nat_add_le [of "int y * w" w "w * h * 3 div 2"] by simp
  qed
  from copy_rows_fits [OF w this] obtain buf1 where
    1: "copy_rows w (os_pData cvt) 0 (os_RowPitch cvt) 0 [0..<nat h] (m_nv12Buffer c) = Some buf1"
    by blast
  have len1: "length buf1 = nat (w * h * 3 div 2)" using copy_rows_length [OF 1] len by simp
  have ch: "c_div h 2 = h div 2" using h by (simp add: c_div_def sgn_if)
  have "\<forall>y\<in>set [0..<nat (c_div h 2)]. 0 \<le> w * h + int y * w \<and>
            nat (w * h + int y * w) + nat w \<le> length buf1"
  proof
    fix y assume "y \<in> set [0..<nat (c_div h 2)]"
    then have y: "y < nat (h div 2)" by (simp add: ch)
    from plane_bounds(3) [OF w(1) h y]
    have "w * h + int y * w + w \<le> w * h * 3 div 2" .
    moreover have "0 \<le> w * h + int y * w" using w(1) h by simp
    ultimately show "0 \<le> w * h + int y * w \<and> nat (w * h + int y * w) + nat w \<le> length buf1"
      unfolding len1 using w(1) nat_add_le [of "w * h + int y * w" w "w * h * 3 div 2"] by simp
  qed
  from copy_rows_fits [OF w this] obtain buf2 where
    2: "copy_rows w (os_pData cvt) ((os_RowPitch cvt * nat (h mod 2 ^ 32)) mod 2 ^ 32)
          (os_RowPitch cvt) (w * h) [0..<nat (c_div h 2)] buf1 = Some buf2"
    by blast
  show ?thesis
    unfolding Convert_def Let_def w_def [symmetric] h_def [symmetric] 1 using 2
    by (simp split: if_splits)
qed

text \<open>
  Claim C4. For a session whose colour converter was initialised at \<open>width \<times> height\<close>,
  every frame handed to the callback is a buffer of exactly \<open>width * height * 3 / 2\<close>
  bytes, announced with that size, whatever texture was converted and whatever the driver
  returned.
\<close>

theorem nv12_frame_size:
  assumes "0 \<le> width" "width < 2 ^ 31" "0 \<le> height" "height < 2 ^ 31"
      and "GpuColorConverter_Initialize processor_ok textures_ok width height c0 = (True, c)"
      and "deliver_all ticks callback (Some c) = Inr (frames, conv')"
  shows "\<forall>f\<in>set frames. length (frame_data f) = nat (width * height * 3 div 2) \<and>
                        frame_size f = nat (width * height * 3 div 2)"
proof -
  from Initialize_sized [OF assms(5)] nv12_size_exact [OF assms(1-4)]
  have c: "m_nv12Size c = nat (width * height * 3 div 2)"
    "length (m_nv12Buffer c) = m_nv12Size c" by simp_all
  from deliver_all_sized [OF assms(6) c(2)] show ?thesis unfolding c(1) .
qed

lemma example_Initialize:
  "GpuColorConverter_Initialize True True 4 3 GpuColorConverter_new = (True, conv43)"
  by (simp add: GpuColorConverter_Initialize_def GpuColorConverter_new_def conv43_def
        nv12_size_def resize_def Let_def)

lemma upt_0_4: "[0..<4] = [0, 1, 2, 3]"
  by (simp add: upt_rec)

lemma example_Convert:
  "Convert mapped8 conv43 = Inr (Ptr nv12_43, conv43\<lparr>m_nv12Buffer := nv12_43\<rparr>)"
  by (simp add: Convert_def conv43_def mapped8_def nv12_43_def c_div_def memcpy_into_def
        upt_0_3 upt_0_4 replicate_numeral Let_def)

theorem nv12_frame_size_witness:
  "(0::int) \<le> 4 \<and> (4::int) < 2 ^ 31 \<and> (0::int) \<le> 3 \<and> (3::int) < 2 ^ 31 \<and>
   GpuColorConverter_Initialize True True 4 3 GpuColorConverter_new = (True, conv43) \<and>
   deliver_all [(mapped8, 7)] True (Some conv43) =
     Inr ([\<lparr>frame_data = nv12_43, frame_size = 18, frame_timestamp = 7\<rparr>],
          Some (conv43\<lparr>m_nv12Buffer := nv12_43\<rparr>)) \<and>
   length nv12_43 = nat (4 * 3 * 3 div 2)"
proof -
  have d: "deliver_all [(mapped8, 7)] True (Some conv43) =
     Inr ([\<lparr>frame_data = nv12_43, frame_size = 18, frame_timestamp = 7\<rparr>],
          Some (conv43\<lparr>m_nv12Buffer := nv12_43\<rparr>))"
    by (simp add: deliver_frame_def example_Convert) (simp add: conv43_def)
  from nv12_frame_size [OF _ _ _ _ example_Initialize d] example_Initialize d
  show ?thesis by simp
qed

end
